theory Spec2Isabelle
  imports Complex_Main "HOL-Library.Sublist" "HOL-Library.AList"
begin

section \<open>Strings\<close>

text \<open>
  Python strings are modelled as \<open>string\<close>; a character stands for the code point of the
  same number, so the model covers the code points below 256. There \<open>str.lower\<close>
  changes the ASCII capitals and the capitals 192 to 222 other than the multiplication
  sign 215, each to the code point 32 above it.
\<close>

definition is_upper :: "char \<Rightarrow> bool" where
  "is_upper c = (65 \<le> (of_char c :: nat) \<and> (of_char c :: nat) \<le> 90)"

definition is_lower :: "char \<Rightarrow> bool" where
  "is_lower c = (97 \<le> (of_char c :: nat) \<and> (of_char c :: nat) \<le> 122)"

definition is_digit :: "char \<Rightarrow> bool" where
  "is_digit c = (48 \<le> (of_char c :: nat) \<and> (of_char c :: nat) \<le> 57)"

definition is_alpha :: "char \<Rightarrow> bool" where
  "is_alpha c = (is_upper c \<or> is_lower c)"

definition upper_latin1 :: "char \<Rightarrow> bool" where
  "upper_latin1 c = (192 \<le> (of_char c :: nat) \<and> (of_char c :: nat) \<le> 222 \<and> (of_char c :: nat) \<noteq> 215)"

definition lower_char :: "char \<Rightarrow> char" where
  "lower_char c = (if is_upper c \<or> upper_latin1 c then char_of (of_char c + 32 :: nat) else c)"

definition lower :: "string \<Rightarrow> string" where
  "lower s = map lower_char s"

text \<open>\<open>str.isspace\<close> on the code points below 256; also the class \<open>\s\<close> of \<open>re\<close>.\<close>

definition isspace :: "char \<Rightarrow> bool" where
  "isspace c = ((of_char c :: nat) \<in> {9, 10, 11, 12, 13, 28, 29, 30, 31, 32, 133, 160})"

definition strip_where :: "(char \<Rightarrow> bool) \<Rightarrow> string \<Rightarrow> string" where
  "strip_where P s = rev (dropWhile P (rev (dropWhile P s)))"

text \<open>\<open>s.strip()\<close> and \<open>s.strip(c)\<close> for a one-character argument.\<close>

definition strip :: "string \<Rightarrow> string" where
  "strip s = strip_where isspace s"

definition strip_char :: "char \<Rightarrow> string \<Rightarrow> string" where
  "strip_char c s = strip_where (\<lambda>x. x = c) s"

text \<open>
  \<open>s.replace(old, new)\<close>: the occurrences of \<open>old\<close> are found from the left and do not
  overlap. For an empty \<open>old\<close> Python puts \<open>new\<close> before every character and at the end.
\<close>

function replace :: "string \<Rightarrow> string \<Rightarrow> string \<Rightarrow> string" where
  "replace old new s =
     (if old = [] then new @ concat (map (\<lambda>c. c # new) s)
      else if s = [] then []
      else if prefix old s then new @ replace old new (drop (length old) s)
      else hd s # replace old new (tl s))"
  by pat_completeness auto
termination
  by (relation "measure (\<lambda>(old, new, s). length s)") (auto simp: prefix_def)

declare replace.simps [simp del]

text \<open>\<open>sep.join(xs)\<close>.\<close>

fun join :: "string \<Rightarrow> string list \<Rightarrow> string" where
  "join sep [] = []"
| "join sep [x] = x"
| "join sep (x # y # xs) = x @ sep @ join sep (y # xs)"

text \<open>\<open>str(n)\<close> for an integer.\<close>

fun digits :: "nat \<Rightarrow> string" where
  "digits n = (if n < 10 then [char_of (48 + n)] else digits (n div 10) @ [char_of (48 + n mod 10)])"

declare digits.simps [simp del]

definition show_int :: "int \<Rightarrow> string" where
  "show_int i = (if i < 0 then CHR ''-'' # digits (nat (- i)) else digits (nat i))"

section \<open>Exceptions, floats and the primitives of the runtime\<close>

datatype exn = ValueError | OverflowError

text \<open>
  A Python float is a finite value (a rational; the two zeros are not told apart), an
  infinity or a NaN. The arithmetic of the source on floats is one subtraction; its
  rounding is the host's \<open>fl\<close>.
\<close>

datatype pyfloat = Finite rat | PInf | NInf | NaN

text \<open>\<open>bool(x)\<close>: only zero is false.\<close>

definition ftruthy :: "pyfloat \<Rightarrow> bool" where
  "ftruthy x = (x \<noteq> Finite 0)"

fun fabs :: "pyfloat \<Rightarrow> pyfloat" where
  "fabs (Finite r) = Finite \<bar>r\<bar>"
| "fabs PInf = PInf"
| "fabs NInf = PInf"
| "fabs NaN = NaN"

text \<open>\<open>x >= c\<close> for a finite constant \<open>c\<close>; every comparison with a NaN is false.\<close>

fun fge :: "pyfloat \<Rightarrow> rat \<Rightarrow> bool" where
  "fge (Finite r) c = (c \<le> r)"
| "fge PInf c = True"
| "fge NInf c = False"
| "fge NaN c = False"

text \<open>\<open>int(x)\<close> truncates towards zero and raises on a NaN or an infinity.\<close>

fun int_of_float :: "pyfloat \<Rightarrow> exn + int" where
  "int_of_float (Finite r) = Inr (if 0 \<le> r then \<lfloor>r\<rfloor> else \<lceil>r\<rceil>)"
| "int_of_float PInf = Inl OverflowError"
| "int_of_float NInf = Inl OverflowError"
| "int_of_float NaN = Inl ValueError"

text \<open>\<open>round(x)\<close> rounds to the nearest integer, a tie to the even one.\<close>

fun py_round :: "pyfloat \<Rightarrow> exn + int" where
  "py_round (Finite r) =
     (let f = \<lfloor>r\<rfloor>; d = r - of_int f
      in Inr (if d < 1 / 2 then f else if 1 / 2 < d then f + 1 else if even f then f else f + 1))"
| "py_round PInf = Inl OverflowError"
| "py_round NInf = Inl OverflowError"
| "py_round NaN = Inl ValueError"

text \<open>
  What the source calls and neither it nor this theory defines: the platform's path
  separator \<open>os.sep\<close>, \<open>urllib.parse.urlparse\<close> (its \<open>netloc\<close> and \<open>path\<close>, or the
  exception it raises) and \<open>unquote\<close>, the conversions \<open>float(s)\<close>, \<open>str(x)\<close> and
  \<open>float(n)\<close>, and the rounding \<open>fl\<close> of an exact result to a float.
\<close>

record host =
  os_sep :: string
  urlparse :: "string \<Rightarrow> exn + string \<times> string"
  unquote :: "string \<Rightarrow> string"
  float_of_str :: "string \<Rightarrow> exn + pyfloat"
  str_of_float :: "pyfloat \<Rightarrow> string"
  float_of_int :: "int \<Rightarrow> exn + pyfloat"
  fl :: "rat \<Rightarrow> pyfloat"

fun fsub :: "host \<Rightarrow> pyfloat \<Rightarrow> pyfloat \<Rightarrow> pyfloat" where
  "fsub H (Finite a) (Finite b) = fl H (a - b)"
| "fsub H NaN y = NaN"
| "fsub H x NaN = NaN"
| "fsub H PInf PInf = NaN"
| "fsub H NInf NInf = NaN"
| "fsub H PInf y = PInf"
| "fsub H NInf y = NInf"
| "fsub H x PInf = NInf"
| "fsub H x NInf = PInf"

section \<open>Defensive numeric coercion\<close>

text \<open>The values the helpers are called with: \<open>None\<close>, an int, a float or a string.\<close>

datatype pyval = PNone | PInt int | PFloat pyfloat | PStr string

definition py_str :: "host \<Rightarrow> pyval \<Rightarrow> string" where
  "py_str H v = (case v of PNone \<Rightarrow> ''None'' | PInt n \<Rightarrow> show_int n
                 | PFloat x \<Rightarrow> str_of_float H x | PStr s \<Rightarrow> s)"

text \<open>
  \<^verbatim>\<open>
  def safe_int(v, default=0):
      try:
          if v is None: return default
          if isinstance(v, (int,)): return int(v)
          s = str(v).strip()
          if not s: return default
          return int(float(s))
      except Exception:
          return default
  \<close>
  \<open>safe_int_try\<close> is the body of the \<open>try\<close>, \<open>safe_int\<close> the function with its handler.
  The result type of \<open>safe_int\<close> keeps the exception branch, so that "no exception
  leaves the function" is a statement about it.
\<close>

definition safe_int_try :: "host \<Rightarrow> pyval \<Rightarrow> int \<Rightarrow> exn + int" where
  "safe_int_try H v dflt =
     (case v of
        PNone \<Rightarrow> Inr dflt
      | PInt n \<Rightarrow> Inr n
      | _ \<Rightarrow>
          (let s = strip (py_str H v)
           in if s = [] then Inr dflt
              else (case float_of_str H s of Inl e \<Rightarrow> Inl e | Inr x \<Rightarrow> int_of_float x)))"

definition safe_int :: "host \<Rightarrow> pyval \<Rightarrow> int \<Rightarrow> exn + int" where
  "safe_int H v dflt =
     (case safe_int_try H v dflt of Inl e \<Rightarrow> Inr dflt | Inr n \<Rightarrow> Inr n)"

text \<open>
  \<^verbatim>\<open>
  def safe_float(v, default=0.0):
      try:
          if v is None: return default
          if isinstance(v, (float, int)): return float(v)
          s = str(v).strip()
          if not s: return default
          return float(s)
      except Exception:
          return default
  \<close>
\<close>

definition safe_float_try :: "host \<Rightarrow> pyval \<Rightarrow> pyfloat \<Rightarrow> exn + pyfloat" where
  "safe_float_try H v dflt =
     (case v of
        PNone \<Rightarrow> Inr dflt
      | PFloat x \<Rightarrow> Inr x
      | PInt n \<Rightarrow> float_of_int H n
      | PStr s0 \<Rightarrow>
          (let s = strip s0
           in if s = [] then Inr dflt else float_of_str H s))"

definition safe_float :: "host \<Rightarrow> pyval \<Rightarrow> pyfloat \<Rightarrow> exn + pyfloat" where
  "safe_float H v dflt =
     (case safe_float_try H v dflt of Inl e \<Rightarrow> Inr dflt | Inr x \<Rightarrow> Inr x)"

section \<open>Locations\<close>

text \<open>The pattern \<open>^/[A-Za-z]:/\<close> of \<open>re.match\<close>.\<close>

fun drive_prefix :: "string \<Rightarrow> bool" where
  "drive_prefix (a # b # c # d # rest) =
     (a = CHR ''/'' \<and> is_alpha b \<and> c = CHR '':'' \<and> d = CHR ''/'')"
| "drive_prefix s = False"

text \<open>
  \<^verbatim>\<open>
  def fileurl_to_path(loc):
      if not loc: return ""
      loc = loc.strip()
      if not loc.lower().startswith("file:"): return loc
      p = urlparse(loc)
      path = unquote(p.path or "")
      netloc = p.netloc or ""
      if netloc and netloc.lower() not in ("localhost",):
          path = f"//{netloc}{path}"
      if re.match(r"^/[A-Za-z]:/", path):
          path = path[1:]
      return path.replace("/", os.sep)
  \<close>
  An exception of \<open>urlparse\<close> is not caught and leaves the function.
\<close>

definition fileurl_to_path :: "host \<Rightarrow> string \<Rightarrow> exn + string" where
  "fileurl_to_path H loc0 =
     (if loc0 = [] then Inr []
      else
        (let loc = strip loc0
         in if \<not> prefix ''file:'' (lower loc) then Inr loc
            else
              (case urlparse H loc of
                 Inl e \<Rightarrow> Inl e
               | Inr (netloc, ppath) \<Rightarrow>
                   (let path1 = unquote H ppath;
                        path2 = (if netloc \<noteq> [] \<and> lower netloc \<noteq> ''localhost''
                                 then ''//'' @ netloc @ path1 else path1);
                        path3 = (if drive_prefix path2 then tl path2 else path2)
                    in Inr (replace ''/'' (os_sep H) path3)))))"

text \<open>\<open>fileurl_to_path(fileurl_to_path(loc))\<close>: an exception of the inner call leaves both.\<close>

definition fileurl_twice :: "host \<Rightarrow> string \<Rightarrow> exn + string" where
  "fileurl_twice H loc =
     (case fileurl_to_path H loc of Inl e \<Rightarrow> Inl e | Inr p \<Rightarrow> fileurl_to_path H p)"

section \<open>Tracks\<close>

text \<open>The dataclass \<open>Track\<close>; its field \<open>size\<close> is written \<open>size_b\<close>.\<close>

record track =
  track_id :: string
  name :: string
  artist :: string
  album :: string
  remixer :: string
  mix :: string
  label :: string
  genre :: string
  year :: int
  date_added :: string
  bpm :: pyfloat
  key :: string
  kind :: string
  size_b :: int
  duration :: int
  bitrate :: int
  samplerate :: int
  rating :: string
  playcount :: int
  comments :: string
  location_url :: string
  location_path :: string

text \<open>
  The attributes of an XML element are a dictionary from names to strings;
  \<open>attr_str a k\<close> is \<open>str(a.get(k, ""))\<close> and \<open>attr_val a k d\<close> is \<open>a.get(k, d)\<close>.
\<close>

type_synonym attrib = "string \<rightharpoonup> string"

definition attr_str :: "attrib \<Rightarrow> string \<Rightarrow> string" where
  "attr_str a k = (case a k of None \<Rightarrow> [] | Some s \<Rightarrow> s)"

definition attr_val :: "attrib \<Rightarrow> string \<Rightarrow> pyval \<Rightarrow> pyval" where
  "attr_val a k d = (case a k of None \<Rightarrow> d | Some s \<Rightarrow> PStr s)"

text \<open>\<open>a.get("Location", "") or a.get("location", "")\<close>.\<close>

definition attr_location :: "attrib \<Rightarrow> string" where
  "attr_location a =
     (if attr_str a ''Location'' \<noteq> [] then attr_str a ''Location'' else attr_str a ''location'')"

text \<open>
  The body of \<open>iter_tracks\<close> at the end of a \<open>TRACK\<close> element inside \<open>COLLECTION\<close>:
  the location is converted first, then the fields are computed in the order of the
  constructor call. Every call that can raise is a branch.
\<close>

definition mk_track :: "host \<Rightarrow> attrib \<Rightarrow> exn + track" where
  "mk_track H a =
     (case fileurl_to_path H (attr_location a) of Inl e \<Rightarrow> Inl e | Inr loc_path \<Rightarrow>
      case safe_int H (attr_val a ''Year'' (PInt 0)) 0 of Inl e \<Rightarrow> Inl e | Inr y \<Rightarrow>
      case safe_float H (attr_val a ''AverageBpm'' (PFloat (Finite 0))) (Finite 0) of
        Inl e \<Rightarrow> Inl e | Inr b \<Rightarrow>
      case safe_int H (attr_val a ''Size'' (PInt 0)) 0 of Inl e \<Rightarrow> Inl e | Inr sz \<Rightarrow>
      case safe_int H (attr_val a ''TotalTime'' (PInt 0)) 0 of Inl e \<Rightarrow> Inl e | Inr du \<Rightarrow>
      case safe_int H (attr_val a ''BitRate'' (PInt 0)) 0 of Inl e \<Rightarrow> Inl e | Inr br \<Rightarrow>
      case safe_int H (attr_val a ''SampleRate'' (PInt 0)) 0 of Inl e \<Rightarrow> Inl e | Inr sr \<Rightarrow>
      case safe_int H (attr_val a ''PlayCount'' (PInt 0)) 0 of Inl e \<Rightarrow> Inl e | Inr pc \<Rightarrow>
        Inr \<lparr>track_id = attr_str a ''TrackID'', name = attr_str a ''Name'',
             artist = attr_str a ''Artist'', album = attr_str a ''Album'',
             remixer = attr_str a ''Remixer'', mix = attr_str a ''Mix'',
             label = attr_str a ''Label'', genre = attr_str a ''Genre'', year = y,
             date_added = attr_str a ''DateAdded'', bpm = b, key = attr_str a ''Tonality'',
             kind = attr_str a ''Kind'', size_b = sz, duration = du, bitrate = br,
             samplerate = sr, rating = attr_str a ''Rating'', playcount = pc,
             comments = attr_str a ''Comments'', location_url = attr_location a,
             location_path = loc_path\<rparr>)"

section \<open>Keys for duplicate detection\<close>

text \<open>
  \<open>re.sub(r"\(.*?\)", "", s)\<close>: from the left, an opening parenthesis is removed together
  with everything up to the next closing one, when no newline stands between them (the
  dot of \<open>re\<close> does not match a newline); otherwise it stays. \<open>find_close s\<close> is what
  follows that closing parenthesis.
\<close>

fun find_close :: "string \<Rightarrow> string option" where
  "find_close [] = None"
| "find_close (c # cs) =
     (if c = CHR '')'' then Some cs else if c = CHR 0x0A then None else find_close cs)"

lemma find_close_length: "find_close s = Some r \<Longrightarrow> length r < Suc (length s)"
  by (induction s) (auto split: if_splits)

function strip_parens :: "string \<Rightarrow> string" where
  "strip_parens [] = []"
| "strip_parens (c # cs) =
     (if c = CHR ''('' then
        (case find_close cs of Some r \<Rightarrow> strip_parens r | None \<Rightarrow> c # strip_parens cs)
      else c # strip_parens cs)"
  by pat_completeness auto
termination
  by (relation "measure length") (auto dest: find_close_length)

text \<open>\<open>re.sub(r"C+", " ", s)\<close> for a character class \<open>C\<close>: every maximal run becomes one space.\<close>

function sub_runs :: "(char \<Rightarrow> bool) \<Rightarrow> string \<Rightarrow> string" where
  "sub_runs P [] = []"
| "sub_runs P (c # cs) =
     (if P c then CHR '' '' # sub_runs P (dropWhile P cs) else c # sub_runs P cs)"
  by pat_completeness auto
termination
  by (relation "measure (\<lambda>(P, s). length s)") (auto simp: length_dropWhile_le less_Suc_eq_le)

text \<open>The class \<open>[^a-z0-9]\<close>.\<close>

definition not_alnum :: "char \<Rightarrow> bool" where
  "not_alnum c = (\<not> (is_lower c \<or> is_digit c))"

definition norm_ws :: "string \<Rightarrow> string" where
  "norm_ws s = strip (sub_runs isspace s)"

definition norm_key :: "string \<Rightarrow> string" where
  "norm_key s = norm_ws (sub_runs not_alnum (strip_parens (lower s)))"

definition title_key :: "track \<Rightarrow> string" where
  "title_key t = norm_key (artist t) @ ''|'' @ norm_key (name t)"

section \<open>Duplicate groups\<close>

text \<open>
  A \<open>defaultdict(list)\<close> keeps its keys in the order of their first insertion: an
  association list. \<open>add_group k t d\<close> is \<open>d[k].append(t)\<close>.
\<close>

type_synonym groups = "(string \<times> track list) list"

definition add_group :: "string \<Rightarrow> track \<Rightarrow> groups \<Rightarrow> groups" where
  "add_group k t d = AList.map_default k [t] (\<lambda>g. g @ [t]) d"

text \<open>
  \<^verbatim>\<open>
    for t in tracks:
        k = (t.location_path or "").lower()
        if k:
            by_loc[k].append(t)
    ...
    for t in tracks:
        k = t.title_key()
        if k.strip("|"):
            by_title[k].append(t)
  \<close>
\<close>

definition by_loc :: "track list \<Rightarrow> groups" where
  "by_loc tracks =
     fold (\<lambda>t d. let k = lower (location_path t) in if k \<noteq> [] then add_group k t d else d)
       tracks []"

definition by_title :: "track list \<Rightarrow> groups" where
  "by_title tracks =
     fold (\<lambda>t d. let k = title_key t in
                  if strip_char CHR ''|'' k \<noteq> [] then add_group k t d else d)
       tracks []"

text \<open>
  \<^verbatim>\<open>
    for t in tracks:
        rbpm = int(round(t.bpm)) if t.bpm else 0
        k = f"{t.title_key()}|{t.duration}|{rbpm}"
        by_sig[k].append(t)
  \<close>
  \<open>round\<close> raises on a NaN or an infinity, which ends the loop.
\<close>

definition sig_key :: "track \<Rightarrow> exn + string" where
  "sig_key t =
     (case (if ftruthy (bpm t) then py_round (bpm t) else Inr 0) of
        Inl e \<Rightarrow> Inl e
      | Inr rbpm \<Rightarrow> Inr (title_key t @ ''|'' @ show_int (duration t) @ ''|'' @ show_int rbpm))"

fun by_sig_loop :: "track list \<Rightarrow> groups \<Rightarrow> exn + groups" where
  "by_sig_loop [] d = Inr d"
| "by_sig_loop (t # ts) d =
     (case sig_key t of Inl e \<Rightarrow> Inl e | Inr k \<Rightarrow> by_sig_loop ts (add_group k t d))"

definition by_sig :: "track list \<Rightarrow> exn + groups" where
  "by_sig tracks = by_sig_loop tracks []"

text \<open>
  \<open>add_dup_group\<close> writes a row with the type, the key, the number of members and the
  members' ids, artists, titles and locations, each joined by a comma and a space; the
  model keeps the members themselves. Only a group of two or more is reported.
\<close>

record dup_group =
  DuplicateType :: string
  GroupKey :: string
  members :: "track list"

definition reported :: "string \<Rightarrow> groups \<Rightarrow> dup_group list" where
  "reported ty gs =
     map (\<lambda>(k, g). \<lparr>DuplicateType = ty, GroupKey = k, members = g\<rparr>)
       (filter (\<lambda>(k, g). 1 < length g) gs)"

definition dup_groups :: "track list \<Rightarrow> exn + dup_group list" where
  "dup_groups tracks =
     (case by_sig tracks of
        Inl e \<Rightarrow> Inl e
      | Inr sg \<Rightarrow>
          Inr (reported ''Same Location'' (by_loc tracks)
               @ reported ''Same Artist+Title'' (by_title tracks)
               @ reported ''Signature Match'' sg))"

section \<open>Rekordbox library analyser: playlists\<close>

text \<open>
  The dataclass \<open>Playlist\<close> of \<open>rekordbox_analyse.py\<close>. The field \<open>name\<close> is written
  \<open>pl_name\<close> because \<open>Track\<close> has a field of the same name.
\<close>

record playlist =
  path :: string
  pl_name :: string
  node_type :: string
  entries :: int
  track_keys :: "string list"

text \<open>
  The tail of \<open>parse_playlists\<close>:
  \<^verbatim>\<open>
    seen = set()
    uniq = []
    for p in playlists:
        if p.path in seen:
            continue
        seen.add(p.path)
        uniq.append(p)
    return uniq
  \<close>
  The loop state is the pair \<open>(seen, uniq)\<close>.
\<close>

fun dedupe_loop :: "playlist list \<Rightarrow> string set \<Rightarrow> playlist list \<Rightarrow> playlist list" where
  "dedupe_loop [] seen uniq = uniq"
| "dedupe_loop (p # ps) seen uniq =
     (if path p \<in> seen then dedupe_loop ps seen uniq
      else dedupe_loop ps (insert (path p) seen) (uniq @ [p]))"

definition dedupe :: "playlist list \<Rightarrow> playlist list" where
  "dedupe playlists = dedupe_loop playlists {} []"

text \<open>A loop-free description of the same list, used only in the proofs.\<close>

fun firsts :: "playlist list \<Rightarrow> playlist list" where
  "firsts [] = []"
| "firsts (p # ps) = p # filter (\<lambda>q. path q \<noteq> path p) (firsts ps)"

section \<open>Playlist graph\<close>

text \<open>
  A dictionary keeps its keys in the order of their first insertion and a later value
  for a key replaces the earlier one in place: \<open>AList.update\<close>.
  \<^verbatim>\<open>
    for t in iter_tracks(xml_path):
        tracks.append(t)
        if t.track_id:
            tracks_by_key[str(t.track_id)] = t
  \<close>
\<close>

definition tracks_by_key :: "track list \<Rightarrow> (string \<times> track) list" where
  "tracks_by_key tracks =
     fold (\<lambda>t d. if track_id t \<noteq> [] then AList.update (track_id t) t d else d) tracks []"

record broken_row =
  PlaylistPath :: string
  MissingTrackKey :: string

record orphan_row =
  TrackKey :: string
  orphan_TrackID :: string
  orphan_Artist :: string
  orphan_Title :: string
  orphan_Location :: string

text \<open>
  \<^verbatim>\<open>
    used_keys = set()
    broken_rows = []
    for p in playlists:
        for k in p.track_keys:
            used_keys.add(k)
            if k not in tracks_by_key:
                broken_rows.append({"PlaylistPath": p.path, "MissingTrackKey": k})
  \<close>
  The state of the two loops is the pair \<open>(used_keys, broken_rows)\<close>.
\<close>

definition scan_key ::
  "(string \<times> track) list \<Rightarrow> playlist \<Rightarrow> string \<Rightarrow> string set \<times> broken_row list
   \<Rightarrow> string set \<times> broken_row list" where
  "scan_key tbk p k st =
     (insert k (fst st),
      if map_of tbk k = None
      then snd st @ [\<lparr>PlaylistPath = path p, MissingTrackKey = k\<rparr>] else snd st)"

definition scan_playlists ::
  "(string \<times> track) list \<Rightarrow> playlist list \<Rightarrow> string set \<times> broken_row list" where
  "scan_playlists tbk playlists =
     fold (\<lambda>p st. fold (scan_key tbk p) (track_keys p) st) playlists ({}, [])"

text \<open>
  \<^verbatim>\<open>
    for k, t in tracks_by_key.items():
        if k not in used_keys:
            orphan_rows.append({"TrackKey": k, "TrackID": t.track_id, ...})
  \<close>
\<close>

definition orphans :: "(string \<times> track) list \<Rightarrow> string set \<Rightarrow> orphan_row list" where
  "orphans tbk used_keys =
     map (\<lambda>(k, t). \<lparr>TrackKey = k, orphan_TrackID = track_id t, orphan_Artist = artist t,
                      orphan_Title = name t, orphan_Location = location_path t\<rparr>)
       (filter (\<lambda>(k, t). k \<notin> used_keys) tbk)"

text \<open>The playlist part of \<open>analyse\<close>: the broken references and the orphans.\<close>

definition broken_rows :: "track list \<Rightarrow> playlist list \<Rightarrow> broken_row list" where
  "broken_rows tracks playlists = snd (scan_playlists (tracks_by_key tracks) playlists)"

definition orphan_rows :: "track list \<Rightarrow> playlist list \<Rightarrow> orphan_row list" where
  "orphan_rows tracks playlists =
     orphans (tracks_by_key tracks) (fst (scan_playlists (tracks_by_key tracks) playlists))"

section \<open>The Mixed In Key table\<close>

text \<open>
  \<open>csv.DictReader\<close> gives the header row and, for every non-empty row of cells, a
  dictionary from the header names to the cells: a later column of the same name wins,
  a row shorter than the header is filled with \<open>None\<close>, the cells beyond the header
  are stored under the key \<open>None\<close>, which no column name equals.
\<close>

type_synonym csv_row = "string \<rightharpoonup> pyval"

definition row_dict :: "string list \<Rightarrow> string list \<Rightarrow> csv_row" where
  "row_dict header cells =
     map_of (rev (zip header (map PStr cells @ replicate (length header - length cells) PNone)))"

definition row_get :: "csv_row \<Rightarrow> string \<Rightarrow> pyval \<Rightarrow> pyval" where
  "row_get row col d = (case row col of None \<Rightarrow> d | Some v \<Rightarrow> v)"

text \<open>\<open>x or ""\<close> for a cell \<open>x\<close>.\<close>

definition cell_or_empty :: "pyval \<Rightarrow> string" where
  "cell_or_empty v = (case v of PStr s \<Rightarrow> s | _ \<Rightarrow> [])"

text \<open>\<open>sub in s\<close>.\<close>

fun contains :: "string \<Rightarrow> string \<Rightarrow> bool" where
  "contains sub [] = (sub = [])"
| "contains sub (c # cs) = (prefix sub (c # cs) \<or> contains sub cs)"

text \<open>
  \<^verbatim>\<open>
        def find_col(cands):
            for cand in cands:
                for c in cols:
                    if c.lower() == cand.lower(): return c
            for cand in cands:
                for c in cols:
                    if cand.lower() in c.lower(): return c
            return None
  \<close>
\<close>

definition find_col :: "string list \<Rightarrow> string list \<Rightarrow> string option" where
  "find_col cols cands =
     (case find (\<lambda>(cand, c). lower c = lower cand) (List.product cands cols) of
        Some (cand, c) \<Rightarrow> Some c
      | None \<Rightarrow>
          (case find (\<lambda>(cand, c). contains (lower cand) (lower c)) (List.product cands cols) of
             Some (cand, c) \<Rightarrow> Some c
           | None \<Rightarrow> None))"

definition path_cands :: "string list" where
  "path_cands = [''path'', ''file'', ''filename'', ''location'', ''filepath'', ''file path'']"

definition bpm_cands :: "string list" where
  "bpm_cands = [''bpm'', ''tempo'']"

definition key_cands :: "string list" where
  "key_cands = [''key'', ''camelot'', ''tonality'']"

text \<open>The entries of the dictionary that \<open>read_mik_csv\<close> returns.\<close>

record mik =
  mik_path :: string
  mik_bpm :: pyfloat
  mik_key :: string
  mik_row :: csv_row

text \<open>\<open>row.get(col, "") if col else ""\<close> for an optional column name.\<close>

definition col_get :: "csv_row \<Rightarrow> string option \<Rightarrow> pyval" where
  "col_get row col =
     (case col of None \<Rightarrow> PStr [] | Some c \<Rightarrow> if c = [] then PStr [] else row_get row c (PStr []))"

text \<open>
  \<^verbatim>\<open>
        for row in reader:
            rawp = (row.get(path_col, "") if path_col else "") or ""
            p = rawp.replace("/", os.sep).replace("\\\\", "\\").strip()
            if not p:
                continue
            k = p.lower()
            data[k] = {
                "path": p,
                "bpm": safe_float(row.get(bpm_col, ""), 0.0) if bpm_col else 0.0,
                "key": (row.get(key_col, "") if key_col else "") or "",
                "row": row,
            }
  \<close>
  The second \<open>replace\<close> turns two backslashes into one.
\<close>

definition backslash :: char where
  "backslash = CHR 0x5C"

definition mik_entry ::
  "host \<Rightarrow> string option \<Rightarrow> string option \<Rightarrow> string option \<Rightarrow> csv_row
   \<Rightarrow> (string \<times> mik) list \<Rightarrow> exn + (string \<times> mik) list" where
  "mik_entry H path_col bpm_col key_col row data =
     (let rawp = cell_or_empty (col_get row path_col);
          p = strip (replace [backslash, backslash] [backslash] (replace ''/'' (os_sep H) rawp))
      in if p = [] then Inr data
         else
           (case (case bpm_col of
                    None \<Rightarrow> Inr (Finite 0)
                  | Some c \<Rightarrow> if c = [] then Inr (Finite 0)
                              else safe_float H (row_get row c (PStr [])) (Finite 0)) of
              Inl e \<Rightarrow> Inl e
            | Inr b \<Rightarrow>
                Inr (AList.update (lower p)
                       \<lparr>mik_path = p, mik_bpm = b,
                        mik_key = cell_or_empty (col_get row key_col), mik_row = row\<rparr> data)))"

fun mik_rows_loop ::
  "host \<Rightarrow> string option \<Rightarrow> string option \<Rightarrow> string option \<Rightarrow> csv_row list
   \<Rightarrow> (string \<times> mik) list \<Rightarrow> exn + (string \<times> mik) list" where
  "mik_rows_loop H pc bc kc [] data = Inr data"
| "mik_rows_loop H pc bc kc (row # rows) data =
     (case mik_entry H pc bc kc row data of
        Inl e \<Rightarrow> Inl e
      | Inr data' \<Rightarrow> mik_rows_loop H pc bc kc rows data')"

text \<open>
  \<open>read_mik_csv\<close> on the header row (empty for an empty file) and the rows of cells of
  the table.
\<close>

definition read_mik_csv :: "host \<Rightarrow> string list \<Rightarrow> string list list \<Rightarrow> exn + (string \<times> mik) list" where
  "read_mik_csv H header rows =
     mik_rows_loop H (find_col header path_cands) (find_col header bpm_cands)
       (find_col header key_cands)
       (map (row_dict header) (filter (\<lambda>r. r \<noteq> []) rows)) []"

section \<open>Comparison with the Mixed In Key table\<close>

text \<open>A cell of a report row holds a string or a float.\<close>

datatype cell = CStr string | CNum pyfloat

record mik_out =
  Status :: string
  TrackID :: string
  Artist :: string
  Title :: string
  RB_Path :: string
  MIK_Path :: string
  RB_BPM :: cell
  MIK_BPM :: cell
  RB_Key :: string
  MIK_Key :: string

text \<open>
  \<open>rb_paths = { (t.location_path or "").lower(): t for t in tracks if t.location_path }\<close>
\<close>

definition rb_paths :: "track list \<Rightarrow> (string \<times> track) list" where
  "rb_paths tracks =
     fold (\<lambda>t d. if location_path t \<noteq> [] then AList.update (lower (location_path t)) t d else d)
       tracks []"

definition missing_in_mik :: "(string \<times> track) list \<Rightarrow> (string \<times> mik) list \<Rightarrow> mik_out list" where
  "missing_in_mik rbp mk =
     map (\<lambda>(pth, t). \<lparr>Status = ''Missing in MIK'', TrackID = track_id t, Artist = artist t,
                        Title = name t, RB_Path = location_path t, MIK_Path = [],
                        RB_BPM = CNum (bpm t), MIK_BPM = CStr [], RB_Key = key t, MIK_Key = []\<rparr>)
       (filter (\<lambda>(pth, t). map_of mk pth = None) rbp)"

definition missing_in_rb :: "(string \<times> track) list \<Rightarrow> (string \<times> mik) list \<Rightarrow> mik_out list" where
  "missing_in_rb rbp mk =
     map (\<lambda>(pth, m). \<lparr>Status = ''Missing in Rekordbox'', TrackID = [], Artist = [], Title = [],
                        RB_Path = [], MIK_Path = mik_path m, RB_BPM = CStr [],
                        MIK_BPM = CNum (mik_bpm m), RB_Key = [], MIK_Key = mik_key m\<rparr>)
       (filter (\<lambda>(pth, m). map_of rbp pth = None) mk)"

text \<open>
  \<^verbatim>\<open>
            status = []
            if mbpm and t.bpm and abs(mbpm - t.bpm) >= 0.75:
                status.append("BPM diff")
            if mkey and t.key and norm_key(mkey) != norm_key(t.key):
                status.append("Key diff")
  \<close>
\<close>

definition diff_status :: "host \<Rightarrow> track \<Rightarrow> pyfloat \<Rightarrow> string \<Rightarrow> string list" where
  "diff_status H t mbpm mkey =
     (if ftruthy mbpm \<and> ftruthy (bpm t) \<and> fge (fabs (fsub H mbpm (bpm t))) (3 / 4)
      then [''BPM diff''] else [])
     @ (if mkey \<noteq> [] \<and> key t \<noteq> [] \<and> norm_key mkey \<noteq> norm_key (key t)
        then [''Key diff''] else [])"

text \<open>
  One round of the third loop for a path that both dictionaries hold: the row it
  appends, if any.
  \<^verbatim>\<open>
            mbpm = safe_float(m.get("bpm", 0.0), 0.0)
            mkey = (m.get("key", "") or "").strip()
            ...
            if status:
                mik_rows.append({"Status": ", ".join(status), ...})
  \<close>
\<close>

definition diff_row :: "host \<Rightarrow> track \<Rightarrow> mik \<Rightarrow> exn + mik_out option" where
  "diff_row H t m =
     (case safe_float H (PFloat (mik_bpm m)) (Finite 0) of
        Inl e \<Rightarrow> Inl e
      | Inr mbpm \<Rightarrow>
          (let mkey = strip (mik_key m); status = diff_status H t mbpm mkey
           in Inr (if status \<noteq> []
                   then Some \<lparr>Status = join '', '' status, TrackID = track_id t, Artist = artist t,
                              Title = name t, RB_Path = location_path t, MIK_Path = mik_path m,
                              RB_BPM = CNum (bpm t), MIK_BPM = CNum mbpm, RB_Key = key t,
                              MIK_Key = mkey\<rparr>
                   else None)))"

fun diff_rows ::
  "host \<Rightarrow> (string \<times> track) list \<Rightarrow> (string \<times> mik) list \<Rightarrow> exn + mik_out list" where
  "diff_rows H [] mk = Inr []"
| "diff_rows H ((pth, t) # rbp) mk =
     (case map_of mk pth of
        None \<Rightarrow> diff_rows H rbp mk
      | Some m \<Rightarrow>
          (case diff_row H t m of
             Inl e \<Rightarrow> Inl e
           | Inr r \<Rightarrow>
               (case diff_rows H rbp mk of
                  Inl e \<Rightarrow> Inl e
                | Inr rs \<Rightarrow> Inr ((case r of None \<Rightarrow> [] | Some x \<Rightarrow> [x]) @ rs))))"

text \<open>The three loops of \<open>analyse\<close> over the loaded table, and the whole pass.\<close>

definition mik_compare :: "host \<Rightarrow> track list \<Rightarrow> (string \<times> mik) list \<Rightarrow> exn + mik_out list" where
  "mik_compare H tracks mk =
     (case diff_rows H (rb_paths tracks) mk of
        Inl e \<Rightarrow> Inl e
      | Inr ds \<Rightarrow>
          Inr (missing_in_mik (rb_paths tracks) mk @ missing_in_rb (rb_paths tracks) mk @ ds))"

definition mik_pass :: "host \<Rightarrow> track list \<Rightarrow> string list \<Rightarrow> string list list \<Rightarrow> exn + mik_out list" where
  "mik_pass H tracks header rows =
     (case read_mik_csv H header rows of
        Inl e \<Rightarrow> Inl e
      | Inr mk \<Rightarrow> mik_compare H tracks mk)"

section \<open>A reference host\<close>

text \<open>
  For the concrete examples the primitives of \<open>host\<close> are given values that follow
  CPython 3.11. \<open>urlparse_ref\<close> is \<open>urllib.parse.urlsplit\<close> reduced to the two fields
  that \<open>fileurl_to_path\<close> reads (for the scheme \<open>file\<close>, \<open>urlparse\<close> takes no
  parameters off the path): leading control characters and spaces are dropped, tabs and
  line breaks removed, a scheme is split off at the first colon, a network location
  follows two slashes and ends before the first slash, question mark or hash, and the
  path ends before the first hash or question mark. A network location with a square
  bracket of one kind only raises \<open>ValueError\<close>. (The further checks of a bracketed or
  non-ASCII host are not part of the reference.)
\<close>

definition c0_or_space :: "char \<Rightarrow> bool" where
  "c0_or_space c = ((of_char c :: nat) \<le> 32)"

definition scheme_char :: "char \<Rightarrow> bool" where
  "scheme_char c = (is_alpha c \<or> is_digit c \<or> c \<in> {CHR ''+'', CHR ''-'', CHR ''.''})"

definition netloc_end :: "char \<Rightarrow> bool" where
  "netloc_end c = (c \<in> {CHR ''/'', CHR ''?'', CHR ''#''})"

definition cut_query_fragment :: "string \<Rightarrow> string" where
  "cut_query_fragment u = takeWhile (\<lambda>c. c \<noteq> CHR ''?'') (takeWhile (\<lambda>c. c \<noteq> CHR ''#'') u)"

definition split_scheme :: "string \<Rightarrow> string" where
  "split_scheme url =
     (let sch = takeWhile (\<lambda>c. c \<noteq> CHR '':'') url
      in if CHR '':'' \<in> set url \<and> sch \<noteq> [] \<and> is_alpha (hd sch) \<and> list_all scheme_char sch
         then drop (Suc (length sch)) url else url)"

definition urlparse_ref :: "string \<Rightarrow> exn + string \<times> string" where
  "urlparse_ref url0 =
     (let url1 = filter (\<lambda>c. c \<notin> {CHR 0x09, CHR 0x0D, CHR 0x0A}) (dropWhile c0_or_space url0);
          url2 = split_scheme url1
      in if take 2 url2 = ''//''
         then
           (let netloc = takeWhile (\<lambda>c. \<not> netloc_end c) (drop 2 url2);
                url3 = dropWhile (\<lambda>c. \<not> netloc_end c) (drop 2 url2)
            in if (CHR ''['' \<in> set netloc) = (CHR '']'' \<in> set netloc)
               then Inr (netloc, cut_query_fragment url3) else Inl ValueError)
         else Inr ([], cut_query_fragment url2))"

text \<open>
  \<open>unquote_ref\<close> is \<open>urllib.parse.unquote\<close> on escapes of ASCII characters: a percent
  sign followed by two hexadecimal digits becomes the character of that code, any other
  percent sign stays.
\<close>

definition hexval :: "char \<Rightarrow> nat option" where
  "hexval c =
     (if is_digit c then Some (of_char c - 48)
      else if 97 \<le> (of_char c :: nat) \<and> (of_char c :: nat) \<le> 102 then Some (of_char c - 87)
      else if 65 \<le> (of_char c :: nat) \<and> (of_char c :: nat) \<le> 70 then Some (of_char c - 55)
      else None)"

fun unquote_ref :: "string \<Rightarrow> string" where
  "unquote_ref (c # a # b # cs) =
     (if c = CHR ''%'' then
        (case (hexval a, hexval b) of
           (Some x, Some y) \<Rightarrow> char_of (16 * x + y) # unquote_ref cs
         | _ \<Rightarrow> c # unquote_ref (a # b # cs))
      else c # unquote_ref (a # b # cs))"
| "unquote_ref (c # cs) = c # unquote_ref cs"
| "unquote_ref [] = []"

text \<open>
  The conversions between numbers and strings are tables that are right at the
  arguments listed, the only ones the examples reach; \<open>float(n)\<close> and the rounding are
  exact, as they are on the small numbers of the examples.
\<close>

definition float_of_str_ref :: "string \<Rightarrow> exn + pyfloat" where
  "float_of_str_ref s =
     (if s = ''0'' then Inr (Finite 0)
      else if s = ''128'' then Inr (Finite 128)
      else if s = ''128.75'' then Inr (Finite (515 / 4))
      else if s = ''nan'' then Inr NaN
      else Inl ValueError)"

definition str_of_float_ref :: "pyfloat \<Rightarrow> string" where
  "str_of_float_ref x = (if x = Finite 128 then ''128.0'' else ''0.0'')"

definition ref_host :: "string \<Rightarrow> host" where
  "ref_host sep =
     \<lparr>os_sep = sep, urlparse = urlparse_ref, unquote = unquote_ref,
      float_of_str = float_of_str_ref, str_of_float = str_of_float_ref,
      float_of_int = (\<lambda>n. Inr (Finite (of_int n))), fl = Finite\<rparr>"

definition posix :: host where
  "posix = ref_host ''/''"

definition windows :: host where
  "windows = ref_host [backslash]"

section \<open>Example inputs\<close>

definition ex_house :: playlist where
  "ex_house = \<lparr>path = ''Sets/House'', pl_name = ''House'', node_type = ''1'', entries = 2,
                track_keys = [''1'', ''2'']\<rparr>"

definition ex_techno :: playlist where
  "ex_techno = \<lparr>path = ''Sets/Techno'', pl_name = ''Techno'', node_type = ''1'', entries = 1,
                 track_keys = [''2'']\<rparr>"

definition ex_house_again :: playlist where
  "ex_house_again = \<lparr>path = ''Sets/House'', pl_name = ''House'', node_type = ''1'', entries = 1,
                      track_keys = [''3'']\<rparr>"

definition ex_attrs :: attrib where
  "ex_attrs = [''TrackID'' \<mapsto> ''7'', ''Location'' \<mapsto> ''file:///music/a.mp3'', ''Year'' \<mapsto> ''199x'',
               ''AverageBpm'' \<mapsto> '' 128.75 '', ''TotalTime'' \<mapsto> ''128.75'']"

text \<open>A track with the given id, artist, title, tempo, duration and path, all else empty.\<close>

definition plain_track ::
  "string \<Rightarrow> string \<Rightarrow> string \<Rightarrow> pyfloat \<Rightarrow> int \<Rightarrow> string \<Rightarrow> track" where
  "plain_track i a n b d p =
     \<lparr>track_id = i, name = n, artist = a, album = [], remixer = [], mix = [], label = [],
      genre = [], year = 0, date_added = [], bpm = b, key = [], kind = [], size_b = 0,
      duration = d, bitrate = 0, samplerate = 0, rating = [], playcount = 0, comments = [],
      location_url = p, location_path = p\<rparr>"

text \<open>A track at \<open>/music/a.mp3\<close> and a table with one entry for the same path.\<close>

definition ex_track :: "pyfloat \<Rightarrow> string \<Rightarrow> track" where
  "ex_track b k = (plain_track ''1'' ''Artist'' ''Title'' b 300 ''/music/a.mp3'')\<lparr>key := k\<rparr>"

definition ex_mik :: "pyfloat \<Rightarrow> string \<Rightarrow> (string \<times> mik) list" where
  "ex_mik b k =
     [(''/music/a.mp3'', \<lparr>mik_path = ''/music/a.mp3'', mik_bpm = b, mik_key = k,
                           mik_row = Map.empty\<rparr>)]"

text \<open>Three tracks, two of them at one path up to letter case; two tracks without a path.\<close>

definition ex_dup_a :: track where
  "ex_dup_a = plain_track ''1'' ''Artist'' ''One'' (Finite 120) 200 ''/Music/A.mp3''"

definition ex_dup_b :: track where
  "ex_dup_b = plain_track ''2'' ''Other'' ''Two'' (Finite 125) 210 ''/music/a.MP3''"

definition ex_dup_c :: track where
  "ex_dup_c = plain_track ''3'' ''Third'' ''Three'' (Finite 130) 220 ''/music/b.mp3''"

definition ex_nopath_a :: track where
  "ex_nopath_a = plain_track ''4'' ''Artist'' ''One'' (Finite 120) 200 []"

definition ex_nopath_b :: track where
  "ex_nopath_b = plain_track ''5'' ''Other'' ''Two'' (Finite 125) 210 []"

text \<open>
  The rows that the scan writes for one playlist: one for every entry of its member list
  that is no key of \<open>tracks_by_key\<close> (used in the proofs).
\<close>

definition missing_rows :: "(string \<times> track) list \<Rightarrow> playlist \<Rightarrow> broken_row list" where
  "missing_rows tbk p =
     map (\<lambda>k. \<lparr>PlaylistPath = path p, MissingTrackKey = k\<rparr>)
       (filter (\<lambda>k. map_of tbk k = None) (track_keys p))"

text \<open>A playlist that lists an unknown track twice, and a track without an id.\<close>

definition ex_warmup :: playlist where
  "ex_warmup = \<lparr>path = ''Sets/Warmup'', pl_name = ''Warmup'', node_type = ''1'', entries = 3,
                 track_keys = [''1'', ''99'', ''99'']\<rparr>"

definition ex_no_id :: track where
  "ex_no_id = plain_track [] ''Artist'' ''One'' (Finite 120) 200 ''/music/c.mp3''"

text \<open>The signature key of a track whose tempo can be rounded (used in the proofs).\<close>

definition sigk :: "track \<Rightarrow> string" where
  "sigk t = (case sig_key t of Inl e \<Rightarrow> [] | Inr k \<Rightarrow> k)"

text \<open>Two tracks without artist and title, of the same duration and tempo.\<close>

definition ex_untagged_a :: track where
  "ex_untagged_a = plain_track ''8'' [] [] (Finite 128) 215 ''/music/untitled1.mp3''"

definition ex_untagged_b :: track where
  "ex_untagged_b = plain_track ''9'' [] [] (Finite (1282 / 10)) 215 ''/music/untitled2.mp3''"

text \<open>Two tracks tagged alike up to a bracket, of the same duration and rounded tempo.\<close>

definition ex_mix_a :: track where
  "ex_mix_a = plain_track ''10'' ''Daft Punk'' ''Around The World'' (Finite 121) 429 ''/music/atw.mp3''"

definition ex_mix_b :: track where
  "ex_mix_b =
     plain_track ''11'' ''daft punk'' ''Around the World (Radio Edit)'' (Finite (1213 / 10)) 429
       ''/music/atw2.mp3''"

section \<open>Facts about the string functions\<close>

lemma strip_where_fixed:
  assumes "s = [] \<or> (\<not> P (hd s) \<and> \<not> P (last s))"
  shows "strip_where P s = s"
proof (cases "s = []")
  case True
  then show ?thesis by (simp add: strip_where_def)
next
  case False
  with assms have h: "\<not> P (hd s)" and l: "\<not> P (last s)" by auto
  from False h have "dropWhile P s = s" by (cases s) auto
  moreover from False l have "dropWhile P (rev s) = rev s"
    by (cases "rev s") (auto simp: last_rev hd_rev)
  ultimately show ?thesis by (simp add: strip_where_def)
qed

lemma strip_where_ends:
  assumes "strip_where P s \<noteq> []"
  shows "\<not> P (hd (strip_where P s)) \<and> \<not> P (last (strip_where P s))"
proof -
  let ?d = "dropWhile P s"
  let ?e = "dropWhile P (rev ?d)"
  from assms have e: "?e \<noteq> []" by (simp add: strip_where_def)
  have d: "?d \<noteq> []"
  proof
    assume "?d = []"
    then have "?e = []" by (simp only: rev.simps dropWhile.simps)
    with e show False by blast
  qed
  have "\<not> P (hd ?e)" using e by (rule hd_dropWhile)
  then have l: "\<not> P (last (rev ?e))" using e by (simp add: last_rev)
  have "\<not> P (hd ?d)" using d by (rule hd_dropWhile)
  moreover have "hd (rev ?e) = hd ?d"
  proof -
    have "rev ?d = takeWhile P (rev ?d) @ ?e" by simp
    then have "?d = rev ?e @ rev (takeWhile P (rev ?d))"
      by (metis rev_append rev_rev_ident)
    then show ?thesis using e by (metis hd_append2 rev_is_Nil_conv)
  qed
  ultimately show ?thesis using l by (simp add: strip_where_def)
qed

lemma strip_where_idem: "strip_where P (strip_where P s) = strip_where P s"
  by (rule strip_where_fixed) (use strip_where_ends in blast)

lemma strip_idem: "strip (strip s) = strip s"
  by (simp add: strip_def strip_where_idem)

lemma strip_fixed_ends: "strip s = s \<Longrightarrow> s \<noteq> [] \<Longrightarrow> \<not> isspace (hd s) \<and> \<not> isspace (last s)"
  unfolding strip_def using strip_where_ends [of isspace s] by simp

lemma strip_Nil: "strip [] = []"
  by (simp add: strip_def strip_where_def)

lemma replace_Nil: "replace old new [] = (if old = [] then new else [])"
  by (subst replace.simps) simp

lemma replace_char: "replace [c] new s = concat (map (\<lambda>x. if x = c then new else [x]) s)"
proof (induction s)
  case Nil
  show ?case by (simp add: replace_Nil)
next
  case (Cons x xs)
  from Cons.IH show ?case by (subst replace.simps) auto
qed

section \<open>Playlist de-duplication\<close>

lemma dedupe_loop_firsts:
  "dedupe_loop ps seen uniq = uniq @ filter (\<lambda>q. path q \<notin> seen) (firsts ps)"
proof (induction ps arbitrary: seen uniq)
  case Nil
  show ?case by simp
next
  case (Cons p ps)
  show ?case
  proof (cases "path p \<in> seen")
    case True
    have "filter (\<lambda>q. path q \<noteq> path p \<and> path q \<notin> seen) (firsts ps)
          = filter (\<lambda>q. path q \<notin> seen) (firsts ps)"
      using True by (intro filter_cong) auto
    with True Cons.IH show ?thesis by simp
  next
    case False
    have "filter (\<lambda>q. path q \<notin> insert (path p) seen) (firsts ps)
          = filter (\<lambda>q. path q \<noteq> path p \<and> path q \<notin> seen) (firsts ps)"
      by (intro filter_cong) auto
    with False Cons.IH show ?thesis by simp
  qed
qed

lemma dedupe_firsts: "dedupe ps = firsts ps"
  by (simp add: dedupe_def dedupe_loop_firsts)

lemma firsts_distinct: "distinct (map path (firsts ps))"
proof (induction ps)
  case Nil
  show ?case by simp
next
  case (Cons p ps)
  have "distinct (map path (filter (\<lambda>q. path q \<noteq> path p) (firsts ps)))"
    using Cons.IH by (rule distinct_map_filter)
  then show ?case by auto
qed

lemma find_filter_other:
  "k \<noteq> k' \<Longrightarrow>
   find (\<lambda>q. path q = k) (filter (\<lambda>q. path q \<noteq> k') xs) = find (\<lambda>q. path q = k) xs"
  by (induction xs) auto

lemma firsts_find: "find (\<lambda>q. path q = k) (firsts ps) = find (\<lambda>q. path q = k) ps"
proof (induction ps)
  case Nil
  show ?case by simp
next
  case (Cons p ps)
  show ?case
  proof (cases "path p = k")
    case True
    then show ?thesis by simp
  next
    case False
    then have "find (\<lambda>q. path q = k) (filter (\<lambda>q. path q \<noteq> path p) (firsts ps))
               = find (\<lambda>q. path q = k) (firsts ps)"
      by (intro find_filter_other) auto
    with False Cons.IH show ?thesis by simp
  qed
qed

lemma firsts_subseq: "subseq (firsts ps) ps"
proof (induction ps)
  case Nil
  show ?case by simp
next
  case (Cons p ps)
  have "subseq (filter (\<lambda>q. path q \<noteq> path p) (firsts ps)) (firsts ps)"
    by simp
  then have "subseq (filter (\<lambda>q. path q \<noteq> path p) (firsts ps)) ps"
    using Cons.IH by (rule subseq_order.trans)
  then show ?case by simp
qed

text \<open>
  C9. The list returned by the de-duplication loop of \<open>parse_playlists\<close> has pairwise
  different paths; for every path among the emitted records, the record it holds for
  that path is the first one emitted with it; and the kept records stand in emission
  order (the result is a subsequence of the input).
\<close>

theorem dedupe_keeps_first_occurrence:
  "distinct (map path (dedupe ps))
   \<and> (\<forall>p \<in> set ps. find (\<lambda>q. path q = path p) (dedupe ps) = find (\<lambda>q. path q = path p) ps)
   \<and> subseq (dedupe ps) ps"
  by (simp add: dedupe_firsts firsts_distinct firsts_find firsts_subseq)

theorem dedupe_keeps_first_occurrence_witness:
  "ex_house_again \<in> set [ex_house, ex_techno, ex_house_again]
   \<and> path ex_house_again = path ex_house
   \<and> dedupe [ex_house, ex_techno, ex_house_again] = [ex_house, ex_techno]
   \<and> distinct (map path (dedupe [ex_house, ex_techno, ex_house_again]))
   \<and> find (\<lambda>q. path q = path ex_house_again) (dedupe [ex_house, ex_techno, ex_house_again])
       = find (\<lambda>q. path q = path ex_house_again) [ex_house, ex_techno, ex_house_again]
   \<and> subseq (dedupe [ex_house, ex_techno, ex_house_again])
         [ex_house, ex_techno, ex_house_again]"
  using dedupe_keeps_first_occurrence [of "[ex_house, ex_techno, ex_house_again]"]
  by (simp add: dedupe_def ex_house_def ex_techno_def ex_house_again_def)

section \<open>Location conversion\<close>

lemma fileurl_plain:
  assumes "\<not> prefix ''file:'' (lower q)" and "strip q = q"
  shows "fileurl_to_path H q = Inr q"
  using assms by (simp add: fileurl_to_path_def Let_def)

text \<open>
  C4 (as amended). Converting twice gives the same as converting once for every location
  that does not carry the \<open>file:\<close> scheme, and for every location whose conversion
  yields a path that does not itself begin with \<open>file:\<close> (in any letter case) and has
  no white space at either end.
\<close>

theorem fileurl_idempotent_off_scheme:
  assumes "\<not> prefix ''file:'' (lower (strip p))
           \<or> (\<exists>q. fileurl_to_path H p = Inr q \<and> \<not> prefix ''file:'' (lower q) \<and> strip q = q)"
  shows "fileurl_twice H p = fileurl_to_path H p"
  using assms
proof
  assume np: "\<not> prefix ''file:'' (lower (strip p))"
  show ?thesis
  proof (cases "p = []")
    case True
    then show ?thesis by (simp add: fileurl_twice_def fileurl_to_path_def)
  next
    case False
    with np have "fileurl_to_path H p = Inr (strip p)"
      by (simp add: fileurl_to_path_def Let_def)
    moreover have "fileurl_to_path H (strip p) = Inr (strip p)"
      using np by (intro fileurl_plain) (simp_all add: strip_idem)
    ultimately show ?thesis by (simp add: fileurl_twice_def)
  qed
next
  assume "\<exists>q. fileurl_to_path H p = Inr q \<and> \<not> prefix ''file:'' (lower q) \<and> strip q = q"
  then obtain q where a: "fileurl_to_path H p = Inr q" "\<not> prefix ''file:'' (lower q)" "strip q = q"
    by blast
  then have "fileurl_to_path H q = Inr q" by (intro fileurl_plain)
  with a show ?thesis by (simp add: fileurl_twice_def)
qed

text \<open>
  The conversion is not idempotent on every string: the path of a \<open>file:\<close> URL can begin
  with \<open>file:\<close> again, and the second conversion strips that too.
\<close>

theorem fileurl_not_idempotent:
  "fileurl_to_path posix ''file:file:x'' = Inr ''file:x''
   \<and> fileurl_twice posix ''file:file:x'' = Inr ''x''"
  by code_simp

theorem fileurl_idempotent_off_scheme_witness:
  "fileurl_to_path posix ''file:///music/a%20b.mp3'' = Inr ''/music/a b.mp3''
   \<and> fileurl_twice posix ''file:///music/a%20b.mp3'' = Inr ''/music/a b.mp3''"
proof -
  have 2: "fileurl_to_path posix ''file:///music/a%20b.mp3'' = Inr ''/music/a b.mp3''" by code_simp
  have 3: "\<not> prefix ''file:'' (lower ''/music/a b.mp3'')" by code_simp
  have 4: "strip ''/music/a b.mp3'' = ''/music/a b.mp3''" by code_simp
  from 2 3 4 have "fileurl_twice posix ''file:///music/a%20b.mp3'' = fileurl_to_path posix ''file:///music/a%20b.mp3''"
    by (intro fileurl_idempotent_off_scheme) blast
  with 2 show ?thesis by simp
qed

lemma isspace_backslash: "\<not> isspace backslash"
  by (simp add: isspace_def backslash_def)

lemma replace_char_map: "replace [c] [d] s = map (\<lambda>x. if x = c then d else x) s"
  by (induction s) (simp_all add: replace_char)

text \<open>
  C5 (as amended). On a host whose separator is the backslash, the \<open>file:///\<close> URL of a
  drive-letter path and the same path written with backslashes convert to the same
  string, the backslash form, whenever the URL parser and the percent-decoder leave the
  path as it is (no query, fragment or escape in it) and it has no white space at
  either end.
\<close>

theorem drive_url_matches_backslash_path:
  assumes sep: "os_sep H = [backslash]"
    and url: "urlparse H (''file:///'' @ p) = Inr ([], ''/'' @ p)"
    and unq: "unquote H (''/'' @ p) = ''/'' @ p"
    and drv: "drive_prefix (''/'' @ p)"
    and str: "strip p = p"
  shows "fileurl_to_path H (''file:///'' @ p) = fileurl_to_path H (replace ''/'' [backslash] p)
         \<and> fileurl_to_path H (replace ''/'' [backslash] p) = Inr (replace ''/'' [backslash] p)"
proof -
  let ?q = "replace ''/'' [backslash] p"
  from drv obtain b rest where p: "p = b # CHR '':'' # CHR ''/'' # rest" and b: "is_alpha b"
    by (cases p rule: drive_prefix.cases) auto
  have pne: "p \<noteq> []" using p by simp
  from str pne have ends: "\<not> isspace (hd p)" "\<not> isspace (last p)"
    using strip_fixed_ends by blast+
  have q: "?q = map (\<lambda>x. if x = CHR ''/'' then backslash else x) p"
    by (rule replace_char_map)
  have b': "b \<noteq> CHR ''/''"
    using b by (auto simp: is_alpha_def is_upper_def is_lower_def)
  have "strip (''file:///'' @ p) = ''file:///'' @ p"
    unfolding strip_def
    using ends pne by (intro strip_where_fixed) (simp add: isspace_def)
  moreover have "prefix ''file:'' (lower (''file:///'' @ p))"
    by (simp add: lower_def lower_char_def is_upper_def upper_latin1_def)
  ultimately have 1: "fileurl_to_path H (''file:///'' @ p) = Inr ?q"
    using url unq drv sep by (simp add: fileurl_to_path_def Let_def)
  have "strip ?q = ?q"
    unfolding strip_def
  proof (intro strip_where_fixed disjI2 conjI)
    show "\<not> isspace (hd ?q)" unfolding q using ends(1) b' by (simp add: p)
    show "\<not> isspace (last ?q)"
      unfolding q using pne ends(2) by (simp add: last_map isspace_backslash)
  qed
  moreover have "\<not> prefix ''file:'' (lower ?q)"
    unfolding q using b' by (simp add: p lower_def lower_char_def is_upper_def upper_latin1_def)
  ultimately have 2: "fileurl_to_path H ?q = Inr ?q" by (intro fileurl_plain)
  from 1 2 show ?thesis by simp
qed

theorem drive_url_matches_backslash_path_witness:
  "fileurl_to_path windows ''file:///D:/Music/a.mp3''
     = fileurl_to_path windows [CHR ''D'', CHR '':'', backslash, CHR ''M'', CHR ''u'', CHR ''s'',
         CHR ''i'', CHR ''c'', backslash, CHR ''a'', CHR ''.'', CHR ''m'', CHR ''p'', CHR ''3'']"
proof -
  have sep: "os_sep windows = [backslash]" by (simp add: windows_def ref_host_def)
  have url: "urlparse windows (''file:///'' @ ''D:/Music/a.mp3'') = Inr ([], ''/'' @ ''D:/Music/a.mp3'')"
    by code_simp
  have unq: "unquote windows (''/'' @ ''D:/Music/a.mp3'') = ''/'' @ ''D:/Music/a.mp3''"
    by code_simp
  have drv: "drive_prefix (''/'' @ ''D:/Music/a.mp3'')" by code_simp
  have str: "strip ''D:/Music/a.mp3'' = ''D:/Music/a.mp3''" by code_simp
  have rep: "replace ''/'' [backslash] ''D:/Music/a.mp3''
      = [CHR ''D'', CHR '':'', backslash, CHR ''M'', CHR ''u'', CHR ''s'',
         CHR ''i'', CHR ''c'', backslash, CHR ''a'', CHR ''.'', CHR ''m'', CHR ''p'', CHR ''3'']"
    by (simp add: replace_char_map)
  from drive_url_matches_backslash_path [OF sep url unq drv str]
  show ?thesis by (simp add: rep)
qed

text \<open>
  Other encodings of one path are not unified. A location without the \<open>file:\<close> scheme
  is returned as it is, its separators untouched: where the separator is the slash the
  URL form and the backslash form of the example differ, and where it is the backslash
  the forward-slash form and the backslash form differ.
\<close>

theorem encodings_not_unified:
  "fileurl_to_path posix ''file:///D:/Music/a.mp3''
     \<noteq> fileurl_to_path posix [CHR ''D'', CHR '':'', backslash, CHR ''M'', CHR ''u'', CHR ''s'',
         CHR ''i'', CHR ''c'', backslash, CHR ''a'', CHR ''.'', CHR ''m'', CHR ''p'', CHR ''3'']
   \<and> fileurl_to_path posix ''file:///D:/Music/a.mp3'' = Inr ''D:/Music/a.mp3''
   \<and> fileurl_to_path windows ''D:/Music/a.mp3''
     \<noteq> fileurl_to_path windows [CHR ''D'', CHR '':'', backslash, CHR ''M'', CHR ''u'', CHR ''s'',
         CHR ''i'', CHR ''c'', backslash, CHR ''a'', CHR ''.'', CHR ''m'', CHR ''p'', CHR ''3'']
   \<and> fileurl_to_path windows ''D:/Music/a.mp3'' = Inr ''D:/Music/a.mp3''"
  by code_simp

section \<open>Numeric coercion and track materialization\<close>

lemma safe_int_total: "\<exists>n. safe_int H v d = Inr n"
  by (simp add: safe_int_def split: sum.split)

lemma safe_float_total: "\<exists>x. safe_float H v f = Inr x"
  by (simp add: safe_float_def split: sum.split)

lemma safe_int_str:
  "safe_int H (PStr s) d =
     Inr (if strip s = [] then d
          else (case float_of_str H (strip s) of
                  Inl e \<Rightarrow> d
                | Inr x \<Rightarrow> (case int_of_float x of Inl e \<Rightarrow> d | Inr n \<Rightarrow> n)))"
  by (simp add: safe_int_def safe_int_try_def py_str_def Let_def split: sum.split)

lemma safe_float_str:
  "safe_float H (PStr s) f =
     Inr (if strip s = [] then f
          else (case float_of_str H (strip s) of Inl e \<Rightarrow> f | Inr x \<Rightarrow> x))"
  by (simp add: safe_float_def safe_float_try_def Let_def split: sum.split)

lemma safe_float_float: "safe_float H (PFloat x) f = Inr x"
  by (simp add: safe_float_def safe_float_try_def)

lemma mk_track_fails_iff:
  "mk_track H a = Inl e \<longleftrightarrow> fileurl_to_path H (attr_location a) = Inl e"
proof -
  obtain y where y: "safe_int H (attr_val a ''Year'' (PInt 0)) 0 = Inr y"
    using safe_int_total by blast
  obtain b where b: "safe_float H (attr_val a ''AverageBpm'' (PFloat (Finite 0))) (Finite 0) = Inr b"
    using safe_float_total by blast
  obtain sz where sz: "safe_int H (attr_val a ''Size'' (PInt 0)) 0 = Inr sz"
    using safe_int_total by blast
  obtain du where du: "safe_int H (attr_val a ''TotalTime'' (PInt 0)) 0 = Inr du"
    using safe_int_total by blast
  obtain br where br: "safe_int H (attr_val a ''BitRate'' (PInt 0)) 0 = Inr br"
    using safe_int_total by blast
  obtain sr where sr: "safe_int H (attr_val a ''SampleRate'' (PInt 0)) 0 = Inr sr"
    using safe_int_total by blast
  obtain pc where pc: "safe_int H (attr_val a ''PlayCount'' (PInt 0)) 0 = Inr pc"
    using safe_int_total by blast
  show ?thesis
    by (cases "fileurl_to_path H (attr_location a)") (simp_all add: mk_track_def y b sz du br sr pc)
qed

lemma mk_track_succeeds:
  assumes "fileurl_to_path H (attr_location a) = Inr p"
  shows "\<exists>t. mk_track H a = Inr t \<and> location_path t = p
           \<and> safe_int H (attr_val a ''Year'' (PInt 0)) 0 = Inr (year t)
           \<and> safe_float H (attr_val a ''AverageBpm'' (PFloat (Finite 0))) (Finite 0) = Inr (bpm t)
           \<and> safe_int H (attr_val a ''TotalTime'' (PInt 0)) 0 = Inr (duration t)"
proof -
  obtain y where y: "safe_int H (attr_val a ''Year'' (PInt 0)) 0 = Inr y"
    using safe_int_total by blast
  obtain b where b: "safe_float H (attr_val a ''AverageBpm'' (PFloat (Finite 0))) (Finite 0) = Inr b"
    using safe_float_total by blast
  obtain sz where sz: "safe_int H (attr_val a ''Size'' (PInt 0)) 0 = Inr sz"
    using safe_int_total by blast
  obtain du where du: "safe_int H (attr_val a ''TotalTime'' (PInt 0)) 0 = Inr du"
    using safe_int_total by blast
  obtain br where br: "safe_int H (attr_val a ''BitRate'' (PInt 0)) 0 = Inr br"
    using safe_int_total by blast
  obtain sr where sr: "safe_int H (attr_val a ''SampleRate'' (PInt 0)) 0 = Inr sr"
    using safe_int_total by blast
  obtain pc where pc: "safe_int H (attr_val a ''PlayCount'' (PInt 0)) 0 = Inr pc"
    using safe_int_total by blast
  show ?thesis
    using assms by (simp add: mk_track_def y b sz du br sr pc)
qed

text \<open>
  C8 (as amended). The integer and float helpers return a value for every argument:
  the default for \<open>None\<close> and for a blank string, the number itself for a number, the
  parsed number for a string that parses (truncated towards zero by \<open>safe_int\<close>) and the
  default for one that does not. So no content of a numeric attribute makes the
  materialization of a track raise: it raises exactly when the conversion of the
  location does, and otherwise it yields the track whose numeric fields are the
  helpers' values.
\<close>

theorem numeric_coercion_total:
  "(\<exists>n. safe_int H v d = Inr n) \<and> (\<exists>x. safe_float H v f = Inr x)
   \<and> safe_int H PNone d = Inr d \<and> safe_int H (PInt n) d = Inr n
   \<and> safe_int H (PStr s) d =
       Inr (if strip s = [] then d
            else (case float_of_str H (strip s) of
                    Inl e \<Rightarrow> d
                  | Inr x \<Rightarrow> (case int_of_float x of Inl e \<Rightarrow> d | Inr n \<Rightarrow> n)))
   \<and> safe_float H PNone f = Inr f \<and> safe_float H (PFloat x) f = Inr x
   \<and> safe_float H (PStr s) f =
       Inr (if strip s = [] then f
            else (case float_of_str H (strip s) of Inl e \<Rightarrow> f | Inr x \<Rightarrow> x))
   \<and> (mk_track H a = Inl e \<longleftrightarrow> fileurl_to_path H (attr_location a) = Inl e)
   \<and> (fileurl_to_path H (attr_location a) = Inr p \<longrightarrow>
        (\<exists>t. mk_track H a = Inr t \<and> location_path t = p
           \<and> safe_int H (attr_val a ''Year'' (PInt 0)) 0 = Inr (year t)
           \<and> safe_float H (attr_val a ''AverageBpm'' (PFloat (Finite 0))) (Finite 0) = Inr (bpm t)
           \<and> safe_int H (attr_val a ''TotalTime'' (PInt 0)) 0 = Inr (duration t)))"
proof (intro conjI impI)
  show "\<exists>n. safe_int H v d = Inr n" by (rule safe_int_total)
  show "\<exists>x. safe_float H v f = Inr x" by (rule safe_float_total)
  show "safe_int H PNone d = Inr d" by (simp add: safe_int_def safe_int_try_def)
  show "safe_int H (PInt n) d = Inr n" by (simp add: safe_int_def safe_int_try_def)
  show "safe_float H PNone f = Inr f" by (simp add: safe_float_def safe_float_try_def)
  show "safe_float H (PFloat x) f = Inr x" by (rule safe_float_float)
qed (simp_all only: safe_int_str safe_float_str mk_track_fails_iff mk_track_succeeds)

theorem numeric_coercion_total_witness:
  "fileurl_to_path posix (attr_location ex_attrs) = Inr ''/music/a.mp3''
   \<and> safe_int posix (PStr ''199x'') 0 = Inr 0
   \<and> safe_int posix (PStr ''128.75'') 0 = Inr 128
   \<and> safe_float posix (PStr '' 128.75 '') (Finite 0) = Inr (Finite (515 / 4))
   \<and> (\<exists>t. mk_track posix ex_attrs = Inr t \<and> location_path t = ''/music/a.mp3''
          \<and> year t = 0 \<and> bpm t = Finite (515 / 4) \<and> duration t = 128)"
proof -
  have loc: "fileurl_to_path posix (attr_location ex_attrs) = Inr ''/music/a.mp3''"
    by code_simp
  have y: "safe_int posix (attr_val ex_attrs ''Year'' (PInt 0)) 0 = Inr 0" by code_simp
  have b: "safe_float posix (attr_val ex_attrs ''AverageBpm'' (PFloat (Finite 0))) (Finite 0)
           = Inr (Finite (515 / 4))" by code_simp
  have du: "safe_int posix (attr_val ex_attrs ''TotalTime'' (PInt 0)) 0 = Inr 128" by code_simp
  have 1: "safe_int posix (PStr ''199x'') 0 = Inr 0" by code_simp
  have 2: "safe_int posix (PStr ''128.75'') 0 = Inr 128" by code_simp
  have 3: "safe_float posix (PStr '' 128.75 '') (Finite 0) = Inr (Finite (515 / 4))" by code_simp
  from numeric_coercion_total [where H = posix and a = ex_attrs and p = "''/music/a.mp3''"] loc
  have "\<exists>t. mk_track posix ex_attrs = Inr t \<and> location_path t = ''/music/a.mp3''
           \<and> safe_int posix (attr_val ex_attrs ''Year'' (PInt 0)) 0 = Inr (year t)
           \<and> safe_float posix (attr_val ex_attrs ''AverageBpm'' (PFloat (Finite 0))) (Finite 0) = Inr (bpm t)
           \<and> safe_int posix (attr_val ex_attrs ''TotalTime'' (PInt 0)) 0 = Inr (duration t)"
    by blast
  then show ?thesis using loc y b du 1 2 3 by auto
qed

text \<open>
  The location is not read defensively: \<open>urlparse\<close> raises \<open>ValueError\<close> on a host with
  an opening square bracket and no closing one, nothing catches it, and the
  materialization of the track raises.
\<close>

theorem track_parse_raises_on_location:
  "mk_track posix [''TrackID'' \<mapsto> ''7'', ''Location'' \<mapsto> ''file://[''] = Inl ValueError"
  by code_simp

section \<open>Dictionaries and the comparison loops\<close>

lemma set_update_subset: "set (AList.update k v al) \<subseteq> insert (k, v) (set al)"
  by (induction al) auto

lemma fold_update_distinct:
  "distinct (map fst d) \<Longrightarrow>
   distinct (map fst (fold (\<lambda>t d. if P t then AList.update (kf t) t d else d) ts d))"
  by (induction ts arbitrary: d) (simp_all add: distinct_update)

lemma fold_update_keys:
  "fst ` set (fold (\<lambda>t d. if P t then AList.update (kf t) t d else d) ts d)
   = fst ` set d \<union> kf ` {t \<in> set ts. P t}"
  by (induction ts arbitrary: d) (auto simp: dom_update)

lemma fold_update_entries:
  "(k, v) \<in> set (fold (\<lambda>t d. if P t then AList.update (kf t) t d else d) ts d) \<Longrightarrow>
   (k, v) \<in> set d \<or> (v \<in> set ts \<and> P v \<and> k = kf v)"
proof (induction ts arbitrary: d)
  case Nil
  then show ?case by simp
next
  case (Cons t ts)
  show ?case
  proof (cases "P t")
    case True
    with Cons.prems have "(k, v) \<in> set (AList.update (kf t) t d) \<or> (v \<in> set ts \<and> P v \<and> k = kf v)"
      using Cons.IH [of "AList.update (kf t) t d"] by simp
    with True show ?thesis using set_update_subset [of "kf t" t d] by auto
  next
    case False
    with Cons.prems show ?thesis using Cons.IH [of d] by auto
  qed
qed

lemma rb_paths_distinct: "distinct (map fst (rb_paths tracks))"
  unfolding rb_paths_def by (rule fold_update_distinct) simp

lemma rb_paths_keys:
  "fst ` set (rb_paths tracks)
   = (\<lambda>t. lower (location_path t)) ` {t \<in> set tracks. location_path t \<noteq> []}"
  unfolding rb_paths_def by (simp add: fold_update_keys)

lemma rb_paths_entry:
  assumes "(k, t) \<in> set (rb_paths tracks)"
  shows "t \<in> set tracks \<and> location_path t \<noteq> [] \<and> k = lower (location_path t)"
  using fold_update_entries [OF assms [unfolded rb_paths_def]] by simp

lemma rb_paths_same_path:
  assumes "map_of (rb_paths tracks) k = Some t" and "(k', t') \<in> set (rb_paths tracks)"
    and "location_path t' = location_path t"
  shows "k' = k \<and> t' = t"
proof -
  from assms(1) have "(k, t) \<in> set (rb_paths tracks)" by (rule map_of_SomeD)
  then have "k = lower (location_path t)" using rb_paths_entry by blast
  moreover from assms(2) have "k' = lower (location_path t')" using rb_paths_entry by blast
  ultimately have kk: "k' = k" using assms(3) by simp
  with assms(2) have "map_of (rb_paths tracks) k = Some t'"
    using rb_paths_distinct by simp
  with assms(1) kk show ?thesis by simp
qed

text \<open>The row that the third loop appends for a status list.\<close>

lemma diff_row_eq:
  "diff_row H t m =
     Inr (if diff_status H t (mik_bpm m) (strip (mik_key m)) \<noteq> []
          then Some \<lparr>Status = join '', '' (diff_status H t (mik_bpm m) (strip (mik_key m))),
                     TrackID = track_id t, Artist = artist t, Title = name t,
                     RB_Path = location_path t, MIK_Path = mik_path m, RB_BPM = CNum (bpm t),
                     MIK_BPM = CNum (mik_bpm m), RB_Key = key t, MIK_Key = strip (mik_key m)\<rparr>
          else None)"
  by (simp add: diff_row_def safe_float_float Let_def)

lemma diff_row_total: "\<exists>r. diff_row H t m = Inr r"
  by (simp add: diff_row_eq)

lemma diff_row_path: "diff_row H t m = Inr (Some r) \<Longrightarrow> RB_Path r = location_path t"
  by (auto simp: diff_row_eq split: if_splits)

lemma diff_rows_set:
  "\<exists>rs. diff_rows H rbp mk = Inr rs
     \<and> set rs = {r. \<exists>pth t m. (pth, t) \<in> set rbp \<and> map_of mk pth = Some m
                      \<and> diff_row H t m = Inr (Some r)}"
proof (induction rbp)
  case Nil
  show ?case by simp
next
  case (Cons e rbp)
  obtain pth t where e: "e = (pth, t)" by (cases e)
  from Cons.IH obtain rs where rs: "diff_rows H rbp mk = Inr rs"
    and srs: "set rs = {r. \<exists>pth t m. (pth, t) \<in> set rbp \<and> map_of mk pth = Some m
                      \<and> diff_row H t m = Inr (Some r)}" by blast
  show ?case
  proof (cases "map_of mk pth")
    case None
    then show ?thesis using rs srs e by auto
  next
    case (Some m)
    obtain r where r: "diff_row H t m = Inr r" using diff_row_total by blast
    have "diff_rows H (e # rbp) mk = Inr ((case r of None \<Rightarrow> [] | Some x \<Rightarrow> [x]) @ rs)"
      by (simp add: e Some r rs)
    moreover have "set ((case r of None \<Rightarrow> [] | Some x \<Rightarrow> [x]) @ rs)
      = {r. \<exists>pth t m. (pth, t) \<in> set (e # rbp) \<and> map_of mk pth = Some m
                      \<and> diff_row H t m = Inr (Some r)}"
      using Some r srs e by (cases r) auto
    ultimately show ?thesis by blast
  qed
qed

lemma rows_of_path:
  assumes rb: "map_of (rb_paths tracks) pth = Some t" and mk: "map_of mk pth = Some m"
  shows "\<exists>rows r. mik_compare H tracks mk = Inr rows \<and> diff_row H t m = Inr r
           \<and> {x \<in> set rows. RB_Path x = location_path t} = set_option r"
proof -
  let ?rbp = "rb_paths tracks"
  obtain ds where ds: "diff_rows H ?rbp mk = Inr ds"
    and sds: "set ds = {r. \<exists>pth t m. (pth, t) \<in> set ?rbp \<and> map_of mk pth = Some m
                      \<and> diff_row H t m = Inr (Some r)}"
    using diff_rows_set by blast
  obtain r where r: "diff_row H t m = Inr r" using diff_row_total by blast
  let ?rows = "missing_in_mik ?rbp mk @ missing_in_rb ?rbp mk @ ds"
  have rows: "mik_compare H tracks mk = Inr ?rows" by (simp add: mik_compare_def ds)
  have in_rbp: "(pth, t) \<in> set ?rbp" using rb by (rule map_of_SomeD)
  have ne: "location_path t \<noteq> []" using rb_paths_entry [OF in_rbp] by simp
  have a: "x \<in> set (missing_in_mik ?rbp mk) \<Longrightarrow> RB_Path x \<noteq> location_path t" for x
  proof
    assume x: "x \<in> set (missing_in_mik ?rbp mk)" and p: "RB_Path x = location_path t"
    from x obtain k' t' where e: "(k', t') \<in> set ?rbp" "map_of mk k' = None"
      "RB_Path x = location_path t'"
      by (auto simp: missing_in_mik_def)
    with p have "k' = pth" using rb_paths_same_path [OF rb e(1)] by simp
    with e(2) mk show False by simp
  qed
  have b: "x \<in> set (missing_in_rb ?rbp mk) \<Longrightarrow> RB_Path x \<noteq> location_path t" for x
    using ne by (auto simp: missing_in_rb_def)
  have c: "{x \<in> set ds. RB_Path x = location_path t} = set_option r"
  proof (intro set_eqI iffI)
    fix x assume "x \<in> {x \<in> set ds. RB_Path x = location_path t}"
    then obtain k' t' m' where e: "(k', t') \<in> set ?rbp" "map_of mk k' = Some m'"
      "diff_row H t' m' = Inr (Some x)" and p: "RB_Path x = location_path t"
      unfolding sds by blast
    from e(3) p have "location_path t' = location_path t" using diff_row_path by fastforce
    then have "k' = pth \<and> t' = t" using rb_paths_same_path [OF rb e(1)] by simp
    with e mk r show "x \<in> set_option r" by simp
  next
    fix x assume "x \<in> set_option r"
    then have x: "r = Some x" by (cases r) auto
    with r in_rbp mk have "x \<in> set ds" unfolding sds by blast
    moreover have "RB_Path x = location_path t" using r x diff_row_path by blast
    ultimately show "x \<in> {x \<in> set ds. RB_Path x = location_path t}" by simp
  qed
  have "{x \<in> set ?rows. RB_Path x = location_path t} = set_option r"
    using a b c by auto
  with rows r show ?thesis by blast
qed

section \<open>Metric drift\<close>

lemma status_bpm:
  "contains ''BPM diff'' (join '', '' (diff_status H t mbpm mkey))
   \<longleftrightarrow> ftruthy mbpm \<and> ftruthy (bpm t) \<and> fge (fabs (fsub H mbpm (bpm t))) (3 / 4)"
  by (simp add: diff_status_def)

lemma status_key:
  "contains ''Key diff'' (join '', '' (diff_status H t mbpm mkey))
   \<longleftrightarrow> mkey \<noteq> [] \<and> key t \<noteq> [] \<and> norm_key mkey \<noteq> norm_key (key t)"
  by (simp add: diff_status_def)

lemma status_empty:
  "diff_status H t mbpm mkey = []
   \<longleftrightarrow> \<not> (ftruthy mbpm \<and> ftruthy (bpm t) \<and> fge (fabs (fsub H mbpm (bpm t))) (3 / 4))
       \<and> \<not> (mkey \<noteq> [] \<and> key t \<noteq> [] \<and> norm_key mkey \<noteq> norm_key (key t))"
  by (simp add: diff_status_def)

lemma diff_row_names_bpm:
  "(\<exists>x \<in> set_option r. contains ''BPM diff'' (Status x)) \<longleftrightarrow>
     ftruthy (mik_bpm m) \<and> ftruthy (bpm t) \<and> fge (fabs (fsub H (mik_bpm m) (bpm t))) (3 / 4)"
  if "diff_row H t m = Inr r"
  using that status_bpm [of H t "mik_bpm m" "strip (mik_key m)"]
    status_empty [of H t "mik_bpm m" "strip (mik_key m)"]
  by (auto simp: diff_row_eq split: if_splits)

lemma diff_row_names_key:
  "(\<exists>x \<in> set_option r. contains ''Key diff'' (Status x)) \<longleftrightarrow>
     strip (mik_key m) \<noteq> [] \<and> key t \<noteq> [] \<and> norm_key (strip (mik_key m)) \<noteq> norm_key (key t)"
  if "diff_row H t m = Inr r"
  using that status_key [of H t "mik_bpm m" "strip (mik_key m)"]
    status_empty [of H t "mik_bpm m" "strip (mik_key m)"]
  by (auto simp: diff_row_eq split: if_splits)

lemma diff_row_none:
  "r = None \<longleftrightarrow>
     \<not> (ftruthy (mik_bpm m) \<and> ftruthy (bpm t) \<and> fge (fabs (fsub H (mik_bpm m) (bpm t))) (3 / 4))
     \<and> \<not> (strip (mik_key m) \<noteq> [] \<and> key t \<noteq> []
          \<and> norm_key (strip (mik_key m)) \<noteq> norm_key (key t))"
  if "diff_row H t m = Inr r"
  using that status_empty [of H t "mik_bpm m" "strip (mik_key m)"]
  by (auto simp: diff_row_eq split: if_splits)

text \<open>
  C1 (as amended). For a path that both dictionaries hold, with both tempos non-zero
  and a finite computed difference, the comparison reports a row for that path that
  names the tempo exactly when the absolute difference is at least 0.75: a difference
  equal to the tolerance counts as drift, only a smaller one does not.
\<close>

theorem tempo_drift_at_tolerance:
  assumes rb: "map_of (rb_paths tracks) pth = Some t" and mk: "map_of mk pth = Some m"
    and nz: "bpm t \<noteq> Finite 0" "mik_bpm m \<noteq> Finite 0"
    and d: "fabs (fsub H (mik_bpm m) (bpm t)) = Finite d"
  shows "\<exists>rows. mik_compare H tracks mk = Inr rows
           \<and> ((\<exists>r \<in> set rows. RB_Path r = location_path t \<and> contains ''BPM diff'' (Status r))
                \<longleftrightarrow> 3 / 4 \<le> d)"
proof -
  from rows_of_path [OF rb mk, of H] obtain rows r
    where rows: "mik_compare H tracks mk = Inr rows" and r: "diff_row H t m = Inr r"
      and s: "{x \<in> set rows. RB_Path x = location_path t} = set_option r" by blast
  have "(\<exists>x \<in> set rows. RB_Path x = location_path t \<and> contains ''BPM diff'' (Status x))
        \<longleftrightarrow> (\<exists>x \<in> set_option r. contains ''BPM diff'' (Status x))"
    using s by blast
  also have "\<dots> \<longleftrightarrow> 3 / 4 \<le> d"
    using diff_row_names_bpm [OF r] nz d by (simp add: ftruthy_def)
  finally show ?thesis using rows by blast
qed

text \<open>
  C10. For a path that both dictionaries hold the comparison always completes, and: when
  the tempo of either side is zero, no row for that path names the tempo; when the key
  of either side is empty (for the table: after trimming), no row for that path names
  the key; when both hold, no row at all is written for that path.
\<close>

theorem missing_metric_not_compared:
  assumes rb: "map_of (rb_paths tracks) pth = Some t" and mk: "map_of mk pth = Some m"
  shows "\<exists>rows. mik_compare H tracks mk = Inr rows
           \<and> (bpm t = Finite 0 \<or> mik_bpm m = Finite 0 \<longrightarrow>
                \<not> (\<exists>r \<in> set rows. RB_Path r = location_path t \<and> contains ''BPM diff'' (Status r)))
           \<and> (key t = [] \<or> strip (mik_key m) = [] \<longrightarrow>
                \<not> (\<exists>r \<in> set rows. RB_Path r = location_path t \<and> contains ''Key diff'' (Status r)))
           \<and> ((bpm t = Finite 0 \<or> mik_bpm m = Finite 0) \<and> (key t = [] \<or> strip (mik_key m) = [])
                \<longrightarrow> \<not> (\<exists>r \<in> set rows. RB_Path r = location_path t))"
proof -
  from rows_of_path [OF rb mk, of H] obtain rows r
    where rows: "mik_compare H tracks mk = Inr rows" and r: "diff_row H t m = Inr r"
      and s: "{x \<in> set rows. RB_Path x = location_path t} = set_option r" by blast
  have 1: "\<not> (\<exists>x \<in> set rows. RB_Path x = location_path t \<and> contains ''BPM diff'' (Status x))"
    if "bpm t = Finite 0 \<or> mik_bpm m = Finite 0"
  proof -
    have "\<not> (\<exists>x \<in> set_option r. contains ''BPM diff'' (Status x))"
      using diff_row_names_bpm [OF r] that by (auto simp: ftruthy_def)
    then show ?thesis using s by blast
  qed
  have 2: "\<not> (\<exists>x \<in> set rows. RB_Path x = location_path t \<and> contains ''Key diff'' (Status x))"
    if "key t = [] \<or> strip (mik_key m) = []"
  proof -
    have "\<not> (\<exists>x \<in> set_option r. contains ''Key diff'' (Status x))"
      using diff_row_names_key [OF r] that by auto
    then show ?thesis using s by blast
  qed
  have 3: "\<not> (\<exists>x \<in> set rows. RB_Path x = location_path t)"
    if "(bpm t = Finite 0 \<or> mik_bpm m = Finite 0) \<and> (key t = [] \<or> strip (mik_key m) = [])"
  proof -
    have "r = None" using diff_row_none [OF r] that by (auto simp: ftruthy_def)
    then show ?thesis using s by auto
  qed
  from rows 1 2 3 show ?thesis by blast
qed

theorem tempo_drift_at_tolerance_witness:
  "map_of (rb_paths [ex_track (Finite 128) ''8A'']) ''/music/a.mp3'' = Some (ex_track (Finite 128) ''8A'')
   \<and> map_of (ex_mik (Finite 130) ''8A'') ''/music/a.mp3'' = Some (snd (hd (ex_mik (Finite 130) ''8A'')))
   \<and> fabs (fsub posix (Finite 130) (Finite 128)) = Finite 2
   \<and> (\<exists>rows. mik_compare posix [ex_track (Finite 128) ''8A''] (ex_mik (Finite 130) ''8A'') = Inr rows
         \<and> (\<exists>r \<in> set rows. RB_Path r = ''/music/a.mp3'' \<and> contains ''BPM diff'' (Status r)))"
proof -
  have rb: "map_of (rb_paths [ex_track (Finite 128) ''8A'']) ''/music/a.mp3'' = Some (ex_track (Finite 128) ''8A'')"
    by (simp add: rb_paths_def ex_track_def plain_track_def lower_def lower_char_def is_upper_def upper_latin1_def)
  have mk: "map_of (ex_mik (Finite 130) ''8A'') ''/music/a.mp3'' = Some (snd (hd (ex_mik (Finite 130) ''8A'')))"
    by (simp add: ex_mik_def)
  have nz: "bpm (ex_track (Finite 128) ''8A'') \<noteq> Finite 0"
    "mik_bpm (snd (hd (ex_mik (Finite 130) ''8A''))) \<noteq> Finite 0"
    by (simp_all add: ex_track_def plain_track_def ex_mik_def)
  have d: "fabs (fsub posix (mik_bpm (snd (hd (ex_mik (Finite 130) ''8A'')))) (bpm (ex_track (Finite 128) ''8A''))) = Finite 2"
    by (simp add: ex_track_def plain_track_def ex_mik_def posix_def ref_host_def)
  have d': "fabs (fsub posix (Finite 130) (Finite 128)) = Finite 2"
    by (simp add: posix_def ref_host_def)
  have p: "location_path (ex_track (Finite 128) ''8A'') = ''/music/a.mp3''"
    by (simp add: ex_track_def plain_track_def)
  from tempo_drift_at_tolerance [OF rb mk nz d] show ?thesis
    using rb mk d' by (simp add: p)
qed

text \<open>
  At the boundary: tempos 128.0 and 128.75 differ by exactly 0.75 (both are binary
  fractions, the subtraction is exact), and the row is written.
\<close>

theorem tolerance_boundary_is_drift:
  "fabs (fsub posix (Finite (515 / 4)) (Finite 128)) = Finite (3 / 4)
   \<and> mik_compare posix [ex_track (Finite 128) ''8A''] (ex_mik (Finite (515 / 4)) ''8A'')
     = Inr [\<lparr>Status = ''BPM diff'', TrackID = ''1'', Artist = ''Artist'', Title = ''Title'',
             RB_Path = ''/music/a.mp3'', MIK_Path = ''/music/a.mp3'', RB_BPM = CNum (Finite 128),
             MIK_BPM = CNum (Finite (515 / 4)), RB_Key = ''8A'', MIK_Key = ''8A''\<rparr>]"
  by code_simp

theorem missing_metric_not_compared_witness:
  "map_of (rb_paths [ex_track (Finite 0) []]) ''/music/a.mp3'' = Some (ex_track (Finite 0) [])
   \<and> map_of (ex_mik (Finite 128) ''8A'') ''/music/a.mp3'' = Some (snd (hd (ex_mik (Finite 128) ''8A'')))
   \<and> bpm (ex_track (Finite 0) []) = Finite 0 \<and> key (ex_track (Finite 0) []) = []
   \<and> (\<exists>rows. mik_compare posix [ex_track (Finite 0) []] (ex_mik (Finite 128) ''8A'') = Inr rows
         \<and> \<not> (\<exists>r \<in> set rows. RB_Path r = ''/music/a.mp3''))"
proof -
  have rb: "map_of (rb_paths [ex_track (Finite 0) []]) ''/music/a.mp3'' = Some (ex_track (Finite 0) [])"
    by (simp add: rb_paths_def ex_track_def plain_track_def lower_def lower_char_def is_upper_def upper_latin1_def)
  have mk: "map_of (ex_mik (Finite 128) ''8A'') ''/music/a.mp3'' = Some (snd (hd (ex_mik (Finite 128) ''8A'')))"
    by (simp add: ex_mik_def)
  have z: "bpm (ex_track (Finite 0) []) = Finite 0" "key (ex_track (Finite 0) []) = []"
    "location_path (ex_track (Finite 0) []) = ''/music/a.mp3''"
    by (simp_all add: ex_track_def plain_track_def)
  from missing_metric_not_compared [OF rb mk, of posix] show ?thesis
    using rb mk z by auto
qed

section \<open>A table without a path column\<close>

lemma find_col_None:
  assumes "\<forall>c \<in> set cols. \<forall>cand \<in> set cands.
             lower c \<noteq> lower cand \<and> \<not> contains (lower cand) (lower c)"
  shows "find_col cols cands = None"
proof -
  have 1: "find (\<lambda>(cand, c). lower c = lower cand) (List.product cands cols) = None"
    using assms by (auto simp: find_None_iff)
  have 2: "find (\<lambda>(cand, c). contains (lower cand) (lower c)) (List.product cands cols) = None"
    using assms by (auto simp: find_None_iff)
  show ?thesis by (simp add: find_col_def 1 2)
qed

lemma mik_entry_no_path: "mik_entry H None bc kc row data = Inr data"
  by (simp add: mik_entry_def col_get_def cell_or_empty_def replace_Nil strip_Nil)

lemma mik_rows_loop_no_path: "mik_rows_loop H None bc kc rows data = Inr data"
  by (induction rows) (simp_all add: mik_entry_no_path)

lemma diff_rows_empty: "diff_rows H rbp [] = Inr []"
  by (induction rbp) auto

lemma mik_compare_empty:
  "mik_compare H tracks [] =
     Inr (map (\<lambda>(pth, t). \<lparr>Status = ''Missing in MIK'', TrackID = track_id t, Artist = artist t,
                            Title = name t, RB_Path = location_path t, MIK_Path = [],
                            RB_BPM = CNum (bpm t), MIK_BPM = CStr [], RB_Key = key t,
                            MIK_Key = []\<rparr>) (rb_paths tracks))"
  by (simp add: mik_compare_def diff_rows_empty missing_in_mik_def missing_in_rb_def)

lemma rb_paths_length:
  "length (rb_paths tracks)
   = card ((\<lambda>t. lower (location_path t)) ` {t \<in> set tracks. location_path t \<noteq> []})"
proof -
  have "card (set (map fst (rb_paths tracks))) = length (map fst (rb_paths tracks))"
    using rb_paths_distinct [of tracks] by (rule distinct_card)
  then have "length (rb_paths tracks) = card (fst ` set (rb_paths tracks))" by simp
  then show ?thesis by (simp only: rb_paths_keys)
qed

text \<open>
  C2 (as amended). When no column of the header equals or contains a path candidate
  (in any letter case), \<open>read_mik_csv\<close> returns the empty dictionary for any rows; the
  comparison still runs on it and writes exactly one \<open>Missing in MIK\<close> row for every
  entry of \<open>rb_paths\<close>, that is for every distinct lower-cased non-empty track path,
  and no other row.
\<close>

theorem no_path_column_all_missing:
  assumes "\<forall>c \<in> set header. \<forall>cand \<in> set path_cands.
             lower c \<noteq> lower cand \<and> \<not> contains (lower cand) (lower c)"
  shows "read_mik_csv H header rows = Inr []
         \<and> mik_pass H tracks header rows =
             Inr (map (\<lambda>(pth, t). \<lparr>Status = ''Missing in MIK'', TrackID = track_id t,
                         Artist = artist t, Title = name t, RB_Path = location_path t,
                         MIK_Path = [], RB_BPM = CNum (bpm t), MIK_BPM = CStr [],
                         RB_Key = key t, MIK_Key = []\<rparr>) (rb_paths tracks))
         \<and> length (rb_paths tracks)
             = card ((\<lambda>t. lower (location_path t)) ` {t \<in> set tracks. location_path t \<noteq> []})"
proof -
  from assms have "find_col header path_cands = None" by (rule find_col_None)
  then have r: "read_mik_csv H header rows = Inr []"
    by (simp add: read_mik_csv_def mik_rows_loop_no_path)
  then show ?thesis by (simp add: mik_pass_def mik_compare_empty rb_paths_length)
qed

theorem no_path_column_all_missing_witness:
  "find_col [''Title'', ''BPM''] path_cands = None
   \<and> read_mik_csv posix [''Title'', ''BPM''] [[''Title'', ''128'']] = Inr []
   \<and> (\<exists>rows. mik_pass posix [ex_track (Finite 128) ''8A''] [''Title'', ''BPM''] [[''Title'', ''128'']]
                = Inr rows \<and> length rows = 1)"
proof -
  have h: "\<forall>c \<in> set [''Title'', ''BPM'']. \<forall>cand \<in> set path_cands.
             lower c \<noteq> lower cand \<and> \<not> contains (lower cand) (lower c)"
    by code_simp
  have f: "find_col [''Title'', ''BPM''] path_cands = None" by code_simp
  have l: "length (rb_paths [ex_track (Finite 128) ''8A'']) = 1" by code_simp
  from no_path_column_all_missing [OF h, of posix "[[''Title'', ''128'']]" "[ex_track (Finite 128) ''8A'']"]
  show ?thesis using f l by simp
qed

text \<open>
  The pass is not skipped: with the header \<open>Title,BPM\<close> the one track of the library
  is reported as missing in the table.
\<close>

theorem no_path_column_reports_every_track:
  "find_col [''Title'', ''BPM''] path_cands = None
   \<and> mik_pass posix [ex_track (Finite 128) ''8A''] [''Title'', ''BPM''] [[''Title'', ''128'']]
     = Inr [\<lparr>Status = ''Missing in MIK'', TrackID = ''1'', Artist = ''Artist'', Title = ''Title'',
             RB_Path = ''/music/a.mp3'', MIK_Path = [], RB_BPM = CNum (Finite 128),
             MIK_BPM = CStr [], RB_Key = ''8A'', MIK_Key = []\<rparr>]"
  by code_simp

section \<open>Exact-path duplicates\<close>

lemma group_fold_distinct:
  "distinct (map fst d) \<Longrightarrow>
   distinct (map fst (fold (\<lambda>t d. let k = kf t in if keep k then add_group k t d else d) ts d))"
  by (induction ts arbitrary: d) (simp_all add: add_group_def distinct_map_default Let_def)

lemma group_fold_lookup:
  "map_of (fold (\<lambda>t d. let k = kf t in if keep k then add_group k t d else d) ts d) k
   = (if filter (\<lambda>t. kf t = k \<and> keep k) ts = [] then map_of d k
      else Some ((case map_of d k of None \<Rightarrow> [] | Some g \<Rightarrow> g) @ filter (\<lambda>t. kf t = k \<and> keep k) ts))"
proof (induction ts arbitrary: d)
  case Nil
  show ?case by simp
next
  case (Cons t ts)
  let ?d = "if keep (kf t) then add_group (kf t) t d else d"
  have step: "fold (\<lambda>t d. let k = kf t in if keep k then add_group k t d else d) (t # ts) d
     = fold (\<lambda>t d. let k = kf t in if keep k then add_group k t d else d) ts ?d"
    by (simp add: Let_def)
  have look: "map_of ?d k
     = (if kf t = k \<and> keep k then Some ((case map_of d k of None \<Rightarrow> [] | Some g \<Rightarrow> g) @ [t])
        else map_of d k)"
    by (auto simp: add_group_def map_of_map_default split: option.splits)
  show ?case
    unfolding step Cons.IH [of ?d] look by (auto split: option.splits)
qed

lemma filter_key_distinct:
  "distinct (map fst xs) \<Longrightarrow> map_of xs k = Some v \<Longrightarrow> filter (\<lambda>p. fst p = k) xs = [(k, v)]"
proof (induction xs)
  case Nil
  then show ?case by simp
next
  case (Cons x xs)
  show ?case
  proof (cases "fst x = k")
    case True
    with Cons.prems have "x = (k, v)" by (cases x) simp
    moreover have "filter (\<lambda>p. fst p = k) xs = []"
    proof -
      have "fst p \<noteq> k" if "p \<in> set xs" for p
        using Cons.prems(1) True that by (auto simp: image_iff)
      then show ?thesis by (simp add: filter_empty_conv)
    qed
    ultimately show ?thesis by simp
  next
    case False
    with Cons show ?thesis by simp
  qed
qed

lemma by_loc_distinct: "distinct (map fst (by_loc tracks))"
  unfolding by_loc_def by (rule group_fold_distinct) simp

lemma by_loc_lookup:
  "map_of (by_loc tracks) k
   = (if filter (\<lambda>t. lower (location_path t) = k \<and> k \<noteq> []) tracks = [] then None
      else Some (filter (\<lambda>t. lower (location_path t) = k \<and> k \<noteq> []) tracks))"
  unfolding by_loc_def by (simp add: group_fold_lookup)

lemma reported_type: "g \<in> set (reported ty gs) \<Longrightarrow> DuplicateType g = ty"
  by (auto simp: reported_def)

lemma by_loc_groups_of:
  assumes t: "t \<in> set tracks" and ne: "location_path t \<noteq> []"
  shows "filter (\<lambda>g. t \<in> set (members g)) (reported ''Same Location'' (by_loc tracks))
         = (if 2 \<le> length (filter (\<lambda>u. lower (location_path u) = lower (location_path t)) tracks)
            then [\<lparr>DuplicateType = ''Same Location'', GroupKey = lower (location_path t),
                   members = filter (\<lambda>u. lower (location_path u) = lower (location_path t)) tracks\<rparr>]
            else [])"
proof -
  let ?k = "lower (location_path t)"
  let ?g = "filter (\<lambda>u. lower (location_path u) = ?k) tracks"
  let ?G = "by_loc tracks"
  have kne: "?k \<noteq> []" using ne by (simp add: lower_def)
  have tg: "t \<in> set ?g" using t by simp
  have gne: "?g \<noteq> []"
  proof
    assume "?g = []"
    with tg show False by (simp only: list.set empty_iff)
  qed
  have "filter (\<lambda>u. lower (location_path u) = ?k \<and> ?k \<noteq> []) tracks = ?g" using kne by simp
  then have look: "map_of ?G ?k = Some ?g" unfolding by_loc_lookup using gne by simp
  have mem: "t \<in> set g \<longleftrightarrow> k = ?k" if "(k, g) \<in> set ?G" for k g
  proof -
    from that have "map_of ?G k = Some g" using by_loc_distinct by simp
    then have "g = filter (\<lambda>u. lower (location_path u) = k \<and> k \<noteq> []) tracks"
      by (auto simp: by_loc_lookup split: if_splits)
    then show ?thesis using t kne by auto
  qed
  have "filter (\<lambda>(k, g). t \<in> set g) (filter (\<lambda>(k, g). 1 < length g) ?G)
        = filter (\<lambda>(k, g). 1 < length g) (filter (\<lambda>p. fst p = ?k) ?G)"
    unfolding filter_filter using mem by (intro filter_cong) auto
  also have "\<dots> = filter (\<lambda>(k, g). 1 < length g) [(?k, ?g)]"
    using filter_key_distinct [OF by_loc_distinct look] by simp
  finally have "filter (\<lambda>(k, g). t \<in> set g) (filter (\<lambda>(k, g). 1 < length g) ?G)
        = (if 2 \<le> length ?g then [(?k, ?g)] else [])" by auto
  then show ?thesis
    by (simp add: reported_def filter_map comp_def case_prod_unfold)
qed

lemma by_loc_no_path:
  assumes "location_path t = []"
  shows "filter (\<lambda>g. t \<in> set (members g)) (reported ''Same Location'' (by_loc tracks)) = []"
proof -
  have "t \<notin> set g" if "(k, g) \<in> set (by_loc tracks)" for k g
  proof -
    from that have "map_of (by_loc tracks) k = Some g" using by_loc_distinct by simp
    then have "g = filter (\<lambda>u. lower (location_path u) = k \<and> k \<noteq> []) tracks"
      by (auto simp: by_loc_lookup split: if_splits)
    then show ?thesis using assms by (auto simp: lower_def)
  qed
  then show ?thesis by (auto simp: reported_def filter_empty_conv)
qed

text \<open>
  C6 (as amended). When the duplicate report is produced, the \<open>Same Location\<close> groups
  that hold a track \<open>t\<close> of the library are: exactly one group, whose members are all
  the tracks with the lower-cased path of \<open>t\<close> (each as often as it is loaded, in
  library order), when that path is not empty and two or more tracks have it; and none
  when the path of \<open>t\<close> is empty or no other track has it.
\<close>

theorem exact_path_groups:
  assumes t: "t \<in> set tracks" and ok: "dup_groups tracks = Inr gs"
  shows "filter (\<lambda>g. DuplicateType g = ''Same Location'' \<and> t \<in> set (members g)) gs
         = (if location_path t \<noteq> []
               \<and> 2 \<le> length (filter (\<lambda>u. lower (location_path u) = lower (location_path t)) tracks)
            then [\<lparr>DuplicateType = ''Same Location'', GroupKey = lower (location_path t),
                   members = filter (\<lambda>u. lower (location_path u) = lower (location_path t)) tracks\<rparr>]
            else [])"
proof -
  from ok obtain sg where gs: "gs = reported ''Same Location'' (by_loc tracks)
      @ reported ''Same Artist+Title'' (by_title tracks) @ reported ''Signature Match'' sg"
    by (auto simp: dup_groups_def split: sum.splits)
  have 1: "filter (\<lambda>g. DuplicateType g = ''Same Location'' \<and> t \<in> set (members g))
             (reported ''Same Location'' (by_loc tracks))
           = filter (\<lambda>g. t \<in> set (members g)) (reported ''Same Location'' (by_loc tracks))"
    by (intro filter_cong) (auto dest: reported_type)
  have 2: "filter (\<lambda>g. DuplicateType g = ''Same Location'' \<and> t \<in> set (members g))
             (reported ''Same Artist+Title'' (by_title tracks)) = []"
    by (auto simp: filter_empty_conv dest: reported_type)
  have 3: "filter (\<lambda>g. DuplicateType g = ''Same Location'' \<and> t \<in> set (members g))
             (reported ''Signature Match'' sg) = []"
    by (auto simp: filter_empty_conv dest: reported_type)
  show ?thesis
  proof (cases "location_path t = []")
    case True
    then show ?thesis unfolding gs filter_append 1 2 3 using by_loc_no_path by simp
  next
    case False
    then show ?thesis unfolding gs filter_append 1 2 3 using by_loc_groups_of [OF t] by simp
  qed
qed

theorem exact_path_groups_witness:
  "ex_dup_a \<in> set [ex_dup_a, ex_dup_b, ex_dup_c] \<and> location_path ex_dup_a \<noteq> []
   \<and> dup_groups [ex_dup_a, ex_dup_b, ex_dup_c]
       = Inr [\<lparr>DuplicateType = ''Same Location'', GroupKey = ''/music/a.mp3'',
               members = [ex_dup_a, ex_dup_b]\<rparr>]
   \<and> filter (\<lambda>g. DuplicateType g = ''Same Location'' \<and> ex_dup_a \<in> set (members g))
         [\<lparr>DuplicateType = ''Same Location'', GroupKey = ''/music/a.mp3'',
               members = [ex_dup_a, ex_dup_b]\<rparr>]
       = [\<lparr>DuplicateType = ''Same Location'', GroupKey = lower (location_path ex_dup_a),
               members = filter (\<lambda>u. lower (location_path u) = lower (location_path ex_dup_a))
                           [ex_dup_a, ex_dup_b, ex_dup_c]\<rparr>]"
proof -
  have t: "ex_dup_a \<in> set [ex_dup_a, ex_dup_b, ex_dup_c]" by simp
  have ne: "location_path ex_dup_a \<noteq> []" by (simp add: ex_dup_a_def plain_track_def)
  have ok: "dup_groups [ex_dup_a, ex_dup_b, ex_dup_c]
       = Inr [\<lparr>DuplicateType = ''Same Location'', GroupKey = ''/music/a.mp3'',
               members = [ex_dup_a, ex_dup_b]\<rparr>]"
    by code_simp
  have two: "2 \<le> length (filter (\<lambda>u. lower (location_path u) = lower (location_path ex_dup_a))
                           [ex_dup_a, ex_dup_b, ex_dup_c])"
    by code_simp
  from exact_path_groups [OF t ok] two t ne ok show ?thesis by simp
qed

text \<open>
  Two tracks without a location have the same (empty) path and are in no group: the
  loop skips an empty key.
\<close>

theorem empty_paths_not_grouped:
  "lower (location_path ex_nopath_a) = lower (location_path ex_nopath_b)
   \<and> dup_groups [ex_nopath_a, ex_nopath_b] = Inr []"
  by code_simp

section \<open>Broken references and orphans\<close>

lemma scan_keys_fold:
  "fold (scan_key tbk p) ks st
   = (fst st \<union> set ks,
      snd st @ map (\<lambda>k. \<lparr>PlaylistPath = path p, MissingTrackKey = k\<rparr>)
                 (filter (\<lambda>k. map_of tbk k = None) ks))"
  by (induction ks arbitrary: st) (auto simp: scan_key_def)

lemma scan_playlists_fold:
  "fold (\<lambda>p st. fold (scan_key tbk p) (track_keys p) st) ps st
   = (fst st \<union> \<Union> (set ` track_keys ` set ps), snd st @ concat (map (missing_rows tbk) ps))"
  by (induction ps arbitrary: st) (auto simp: scan_keys_fold missing_rows_def)

lemma scan_playlists_eq:
  "scan_playlists tbk ps = (\<Union> (set ` track_keys ` set ps), concat (map (missing_rows tbk) ps))"
  by (simp add: scan_playlists_def scan_playlists_fold)

lemma rows_count:
  "count_list (map (\<lambda>k. \<lparr>PlaylistPath = a, MissingTrackKey = k\<rparr>) (filter P ks))
     \<lparr>PlaylistPath = pp, MissingTrackKey = x\<rparr>
   = (if a = pp \<and> P x then count_list ks x else 0)"
  by (induction ks) auto

lemma missing_rows_count:
  "count_list (missing_rows tbk q) \<lparr>PlaylistPath = pp, MissingTrackKey = x\<rparr>
   = (if path q = pp \<and> map_of tbk x = None then count_list (track_keys q) x else 0)"
  unfolding missing_rows_def by (rule rows_count)

lemma other_paths_count:
  "pp \<notin> path ` set ps \<Longrightarrow>
   count_list (concat (map (missing_rows tbk) ps)) \<lparr>PlaylistPath = pp, MissingTrackKey = x\<rparr> = 0"
  by (induction ps) (auto simp: missing_rows_count)

lemma broken_count:
  assumes "distinct (map path ps)" and "p \<in> set ps" and "map_of tbk x = None"
  shows "count_list (concat (map (missing_rows tbk) ps))
           \<lparr>PlaylistPath = path p, MissingTrackKey = x\<rparr> = count_list (track_keys p) x"
  using assms
proof (induction ps)
  case Nil
  then show ?case by simp
next
  case (Cons q ps)
  show ?case
  proof (cases "q = p")
    case True
    with Cons.prems have "path p \<notin> path ` set ps" by auto
    then have "count_list (concat (map (missing_rows tbk) ps))
                 \<lparr>PlaylistPath = path p, MissingTrackKey = x\<rparr> = 0"
      by (rule other_paths_count)
    with True Cons.prems(3) show ?thesis by (simp add: missing_rows_count)
  next
    case False
    with Cons.prems have p: "p \<in> set ps" and "path q \<noteq> path p" by auto
    with Cons show ?thesis by (simp add: missing_rows_count)
  qed
qed

lemma tracks_by_key_distinct: "distinct (map fst (tracks_by_key tracks))"
  unfolding tracks_by_key_def by (rule fold_update_distinct) simp

lemma tracks_by_key_keys:
  "fst ` set (tracks_by_key tracks) = track_id ` {t \<in> set tracks. track_id t \<noteq> []}"
  unfolding tracks_by_key_def by (simp add: fold_update_keys)

lemma tracks_by_key_None:
  "x \<notin> track_id ` set tracks \<Longrightarrow> map_of (tracks_by_key tracks) x = None"
  using tracks_by_key_keys [of tracks] by (auto simp: map_of_eq_None_iff)

lemma tracks_by_key_entry:
  assumes "(k, t) \<in> set (tracks_by_key tracks)"
  shows "t \<in> set tracks \<and> track_id t \<noteq> [] \<and> k = track_id t"
  using fold_update_entries [OF assms [unfolded tracks_by_key_def]] by simp

lemma orphan_rows_have_ids:
  assumes "r \<in> set (orphan_rows tracks playlists)"
  shows "TrackKey r \<noteq> [] \<and> orphan_TrackID r \<noteq> []"
proof -
  from assms obtain k t where "(k, t) \<in> set (tracks_by_key tracks)"
    and "TrackKey r = k" and "orphan_TrackID r = track_id t"
    by (auto simp: orphan_rows_def orphans_def)
  then show ?thesis using tracks_by_key_entry by fastforce
qed

lemma key_count_distinct:
  assumes "distinct (map fst xs)"
  shows "length (filter (\<lambda>p. fst p = k \<and> Q (fst p)) xs) = (if k \<in> fst ` set xs \<and> Q k then 1 else 0)"
proof (cases "k \<in> fst ` set xs")
  case True
  then obtain v where "map_of xs k = Some v"
    by (metis domD dom_map_of_conv_image_fst)
  then have "filter (\<lambda>p. fst p = k) xs = [(k, v)]"
    using assms by (intro filter_key_distinct)
  moreover have "filter (\<lambda>p. fst p = k \<and> Q (fst p)) xs
      = filter (\<lambda>p. Q (fst p)) (filter (\<lambda>p. fst p = k) xs)"
    by (simp add: conj_commute)
  ultimately show ?thesis using True by simp
next
  case False
  then have "filter (\<lambda>p. fst p = k \<and> Q (fst p)) xs = []"
    by (auto simp: filter_empty_conv)
  with False show ?thesis by simp
qed

lemma orphans_count:
  "length (filter (\<lambda>r. TrackKey r = k) (orphans tbk used))
   = length (filter (\<lambda>p. fst p = k \<and> fst p \<notin> used) tbk)"
proof -
  have "length (filter (\<lambda>r. TrackKey r = k) (orphans tbk used))
        = length (filter (\<lambda>p. fst p = k) (filter (\<lambda>p. fst p \<notin> used) tbk))"
    by (simp add: orphans_def filter_map comp_def case_prod_unfold)
  then show ?thesis by (simp add: conj_commute)
qed

text \<open>
  C7 (as amended). For the playlists that \<open>parse_playlists\<close> returns: a playlist whose
  member list holds an identifier that no loaded track has yields one broken-reference
  row for that identifier and its path per occurrence of the identifier in the list
  (exactly one when it occurs once); a loaded track with a non-empty identifier that
  no playlist lists yields exactly one orphan row under that identifier; and a track
  with an empty identifier yields none: no orphan row has an empty key or an empty
  track id.
\<close>

theorem playlist_graph_findings:
  "(p \<in> set (dedupe ps) \<and> x \<notin> track_id ` set tracks \<longrightarrow>
      count_list (broken_rows tracks (dedupe ps)) \<lparr>PlaylistPath = path p, MissingTrackKey = x\<rparr>
      = count_list (track_keys p) x)
   \<and> (t \<in> set tracks \<and> track_id t \<noteq> [] \<and> track_id t \<notin> \<Union> (set ` track_keys ` set (dedupe ps)) \<longrightarrow>
      length (filter (\<lambda>r. TrackKey r = track_id t) (orphan_rows tracks (dedupe ps))) = 1)
   \<and> (track_id t = [] \<longrightarrow>
      filter (\<lambda>r. TrackKey r = track_id t \<or> orphan_TrackID r = track_id t)
        (orphan_rows tracks (dedupe ps)) = [])"
proof (intro conjI impI)
  assume a: "p \<in> set (dedupe ps) \<and> x \<notin> track_id ` set tracks"
  have "distinct (map path (dedupe ps))" by (simp add: dedupe_firsts firsts_distinct)
  moreover from a have "map_of (tracks_by_key tracks) x = None" by (simp add: tracks_by_key_None)
  ultimately show "count_list (broken_rows tracks (dedupe ps))
      \<lparr>PlaylistPath = path p, MissingTrackKey = x\<rparr> = count_list (track_keys p) x"
    using a by (simp add: broken_rows_def scan_playlists_eq broken_count)
next
  assume a: "t \<in> set tracks \<and> track_id t \<noteq> []
             \<and> track_id t \<notin> \<Union> (set ` track_keys ` set (dedupe ps))"
  then have k: "track_id t \<in> fst ` set (tracks_by_key tracks)"
    unfolding tracks_by_key_keys by blast
  have "length (filter (\<lambda>p. fst p = track_id t
                  \<and> fst p \<notin> \<Union> (set ` track_keys ` set (dedupe ps))) (tracks_by_key tracks))
        = (if track_id t \<in> fst ` set (tracks_by_key tracks)
              \<and> track_id t \<notin> \<Union> (set ` track_keys ` set (dedupe ps)) then 1 else 0)"
    using tracks_by_key_distinct by (rule key_count_distinct)
  with a k show "length (filter (\<lambda>r. TrackKey r = track_id t) (orphan_rows tracks (dedupe ps))) = 1"
    unfolding orphan_rows_def scan_playlists_eq fst_conv orphans_count by simp
next
  assume e: "track_id t = []"
  show "filter (\<lambda>r. TrackKey r = track_id t \<or> orphan_TrackID r = track_id t)
          (orphan_rows tracks (dedupe ps)) = []"
    unfolding e using orphan_rows_have_ids [of _ tracks "dedupe ps"]
    by (auto simp: filter_empty_conv)
qed

theorem playlist_graph_findings_witness:
  "ex_house \<in> set (dedupe [ex_house, ex_techno, ex_house_again])
   \<and> ''2'' \<notin> track_id ` set [ex_dup_a, ex_dup_c]
   \<and> count_list (track_keys ex_house) ''2'' = 1
   \<and> count_list (broken_rows [ex_dup_a, ex_dup_c] (dedupe [ex_house, ex_techno, ex_house_again]))
        \<lparr>PlaylistPath = path ex_house, MissingTrackKey = ''2''\<rparr> = 1
   \<and> ex_dup_c \<in> set [ex_dup_a, ex_dup_c] \<and> track_id ex_dup_c \<noteq> []
   \<and> track_id ex_dup_c \<notin> \<Union> (set ` track_keys ` set (dedupe [ex_house, ex_techno, ex_house_again]))
   \<and> length (filter (\<lambda>r. TrackKey r = track_id ex_dup_c)
        (orphan_rows [ex_dup_a, ex_dup_c] (dedupe [ex_house, ex_techno, ex_house_again]))) = 1
   \<and> track_id ex_no_id = []
   \<and> filter (\<lambda>r. TrackKey r = track_id ex_no_id \<or> orphan_TrackID r = track_id ex_no_id)
        (orphan_rows [ex_dup_a, ex_no_id] (dedupe [ex_house, ex_techno, ex_house_again])) = []"
proof -
  have d: "dedupe [ex_house, ex_techno, ex_house_again] = [ex_house, ex_techno]"
    by (simp add: dedupe_def ex_house_def ex_techno_def ex_house_again_def)
  have 1: "ex_house \<in> set (dedupe [ex_house, ex_techno, ex_house_again])" by (simp add: d)
  have 2: "''2'' \<notin> track_id ` set [ex_dup_a, ex_dup_c]"
    by (simp add: ex_dup_a_def ex_dup_c_def plain_track_def)
  have 3: "count_list (track_keys ex_house) ''2'' = 1" by (simp add: ex_house_def)
  have 4: "ex_dup_c \<in> set [ex_dup_a, ex_dup_c]" by simp
  have 5: "track_id ex_dup_c \<noteq> []" by (simp add: ex_dup_c_def plain_track_def)
  have 6: "track_id ex_dup_c \<notin> \<Union> (set ` track_keys ` set (dedupe [ex_house, ex_techno, ex_house_again]))"
    unfolding d by (simp add: ex_house_def ex_techno_def ex_dup_c_def plain_track_def)
  have 7: "track_id ex_no_id = []" by (simp add: ex_no_id_def plain_track_def)
  from playlist_graph_findings [of ex_house "[ex_house, ex_techno, ex_house_again]" "''2''"
      "[ex_dup_a, ex_no_id]" ex_no_id] 7
  have 8: "filter (\<lambda>r. TrackKey r = track_id ex_no_id \<or> orphan_TrackID r = track_id ex_no_id)
        (orphan_rows [ex_dup_a, ex_no_id] (dedupe [ex_house, ex_techno, ex_house_again])) = []"
    by blast
  from playlist_graph_findings [of ex_house "[ex_house, ex_techno, ex_house_again]" "''2''"
      "[ex_dup_a, ex_dup_c]" ex_dup_c]
  show ?thesis using 1 2 3 4 5 6 7 8 by simp
qed

text \<open>
  A playlist that lists the unknown identifier 99 twice yields two rows for it, and a
  track without an identifier, which no playlist can list, yields no orphan row.
\<close>

theorem repeated_reference_repeats_finding:
  "track_id ex_dup_a = ''1''
   \<and> track_keys ex_warmup = [''1'', ''99'', ''99'']
   \<and> broken_rows [ex_dup_a] (dedupe [ex_warmup])
     = [\<lparr>PlaylistPath = ''Sets/Warmup'', MissingTrackKey = ''99''\<rparr>,
        \<lparr>PlaylistPath = ''Sets/Warmup'', MissingTrackKey = ''99''\<rparr>]
   \<and> track_id ex_no_id = []
   \<and> orphan_rows [ex_no_id] (dedupe [ex_warmup]) = []"
  by (simp add: broken_rows_def orphan_rows_def orphans_def scan_playlists_def scan_key_def
      tracks_by_key_def dedupe_def ex_warmup_def ex_dup_a_def ex_no_id_def plain_track_def)

section \<open>Signature and identity-key groups\<close>

lemma digit_char_not_bar: "m < 10 \<Longrightarrow> char_of (48 + m :: nat) \<noteq> CHR ''|''"
proof
  assume m: "m < 10" and e: "char_of (48 + m) = CHR ''|''"
  from e have "(of_char (char_of (48 + m)) :: nat) = of_char CHR ''|''" by simp
  then have "(48 + m) mod 256 = 124" by (simp add: of_char_of)
  with m show False by simp
qed

lemmas bar_not_digit_char = digit_char_not_bar [THEN not_sym]

lemma digits_no_bar: "CHR ''|'' \<notin> set (digits n)"
proof (induction n rule: digits.induct)
  case (1 n)
  show ?case
  proof (cases "n < 10")
    case True
    then show ?thesis by (subst digits.simps) (simp add: digit_char_not_bar bar_not_digit_char)
  next
    case False
    moreover have "n mod 10 < 10" by simp
    ultimately show ?thesis
      using "1.IH" by (subst digits.simps) (simp add: digit_char_not_bar bar_not_digit_char)
  qed
qed

lemma show_int_no_bar: "CHR ''|'' \<notin> set (show_int i)"
  by (simp add: show_int_def digits_no_bar)

lemma split_at_first:
  "c \<notin> set x \<Longrightarrow> c \<notin> set x' \<Longrightarrow> x @ c # y = x' @ c # y' \<Longrightarrow> x = x' \<and> y = y'"
proof (induction x arbitrary: x')
  case Nil
  then show ?case by (cases x') auto
next
  case (Cons a x)
  then show ?case by (cases x') auto
qed

lemma split_at_last:
  assumes "c \<notin> set y" "c \<notin> set y'" "x @ c # y = x' @ c # y'"
  shows "x = x' \<and> y = y'"
proof -
  from assms(3) have "rev y @ c # rev x = rev y' @ c # rev x'"
    by (metis rev.simps(2) rev_append append_assoc append_Cons append_Nil)
  with assms(1,2) have "rev y = rev y' \<and> rev x = rev x'"
    by (intro split_at_first) simp_all
  then show ?thesis by simp
qed

lemma sig_key_title:
  assumes "sig_key t = Inr k" and "sig_key u = Inr k"
  shows "title_key t = title_key u"
proof -
  from assms(1) obtain r where k: "k = (title_key t @ CHR ''|'' # show_int (duration t)) @ CHR ''|'' # show_int r"
    by (auto simp: sig_key_def split: sum.splits)
  from assms(2) obtain r' where k': "k = (title_key u @ CHR ''|'' # show_int (duration u)) @ CHR ''|'' # show_int r'"
    by (auto simp: sig_key_def split: sum.splits)
  from k k' have "title_key t @ CHR ''|'' # show_int (duration t)
                  = title_key u @ CHR ''|'' # show_int (duration u)"
    using split_at_last [OF show_int_no_bar show_int_no_bar] by blast
  then show ?thesis
    using split_at_last [OF show_int_no_bar show_int_no_bar] by blast
qed

lemma by_sig_loop_fold:
  "by_sig_loop ts d = Inr r \<Longrightarrow>
   r = fold (\<lambda>t d. let k = sigk t in if True then add_group k t d else d) ts d
   \<and> (\<forall>t \<in> set ts. sig_key t = Inr (sigk t))"
proof (induction ts arbitrary: d)
  case Nil
  then show ?case by simp
next
  case (Cons t ts)
  from Cons.prems obtain k where k: "sig_key t = Inr k" and r: "by_sig_loop ts (add_group k t d) = Inr r"
    by (auto split: sum.splits)
  from k have s: "sigk t = k" by (simp add: sigk_def)
  from Cons.IH [OF r] show ?case by (simp add: s k)
qed

lemma by_title_distinct: "distinct (map fst (by_title tracks))"
  unfolding by_title_def by (rule group_fold_distinct) simp

lemma by_title_lookup:
  "map_of (by_title tracks) k
   = (if filter (\<lambda>t. title_key t = k \<and> strip_char CHR ''|'' k \<noteq> []) tracks = [] then None
      else Some (filter (\<lambda>t. title_key t = k \<and> strip_char CHR ''|'' k \<noteq> []) tracks))"
  unfolding by_title_def by (simp add: group_fold_lookup)

text \<open>
  For tracks with an artist or a title the signature grouping refines the identity-key
  grouping: when the duplicate report is produced, two members of a \<open>Signature Match\<close>
  group, one of which has a non-empty identity key, are together in a
  \<open>Same Artist+Title\<close> group.
\<close>

theorem signature_refines_identity:
  assumes ok: "dup_groups tracks = Inr gs"
    and g: "g \<in> set gs" "DuplicateType g = ''Signature Match''"
    and mem: "t \<in> set (members g)" "u \<in> set (members g)"
    and ne: "strip_char CHR ''|'' (title_key t) \<noteq> []"
  shows "\<exists>h \<in> set gs. DuplicateType h = ''Same Artist+Title''
           \<and> t \<in> set (members h) \<and> u \<in> set (members h)"
proof -
  from ok obtain sg where sg: "by_sig tracks = Inr sg"
    and gs: "gs = reported ''Same Location'' (by_loc tracks)
      @ reported ''Same Artist+Title'' (by_title tracks) @ reported ''Signature Match'' sg"
    by (auto simp: dup_groups_def split: sum.splits)
  from sg have fold: "sg = fold (\<lambda>t d. let k = sigk t in if True then add_group k t d else d) tracks []"
    and keys: "\<forall>t \<in> set tracks. sig_key t = Inr (sigk t)"
    using by_sig_loop_fold [of tracks "[]" sg] by (simp_all add: by_sig_def)
  have dsg: "distinct (map fst sg)" unfolding fold by (rule group_fold_distinct) simp
  have lsg: "map_of sg k = (if filter (\<lambda>t. sigk t = k) tracks = [] then None
                            else Some (filter (\<lambda>t. sigk t = k) tracks))" for k
    unfolding fold using group_fold_lookup [of sigk "\<lambda>k. True" tracks "[]" k]
    by (simp add: Let_def)
  from g gs have "g \<in> set (reported ''Signature Match'' sg)"
    by (auto dest: reported_type)
  then obtain k where kg: "(k, members g) \<in> set sg" and len: "1 < length (members g)"
    by (auto simp: reported_def)
  from kg dsg have "map_of sg k = Some (members g)" by simp
  then have mg: "members g = filter (\<lambda>t. sigk t = k) tracks"
    by (auto simp: lsg split: if_splits)
  let ?K = "title_key t"
  let ?h = "filter (\<lambda>x. title_key x = ?K \<and> strip_char CHR ''|'' ?K \<noteq> []) tracks"
  have same: "title_key x = ?K" if "x \<in> set (members g)" for x
  proof -
    from that mem(1) have "x \<in> set tracks" "t \<in> set tracks" "sigk x = k" "sigk t = k"
      by (simp_all add: mg)
    with keys have "sig_key x = Inr k" "sig_key t = Inr k" by auto
    then show ?thesis by (rule sig_key_title)
  qed
  have sub: "members g = filter (\<lambda>x. sigk x = k) ?h"
    unfolding mg filter_filter using same ne by (intro filter_cong) (auto simp: mg)
  have "set (members g) \<subseteq> set ?h" by (subst sub) auto
  with mem have th: "t \<in> set ?h" "u \<in> set ?h" by blast+
  have hne: "?h \<noteq> []"
  proof
    assume "?h = []"
    with th(1) show False by (simp only: list.set empty_iff)
  qed
  have "length (members g) \<le> length ?h" unfolding sub by (rule length_filter_le)
  with len have lh: "1 < length ?h" by simp
  have "map_of (by_title tracks) ?K = Some ?h"
    unfolding by_title_lookup using hne by simp
  then have "(?K, ?h) \<in> set (by_title tracks)" by (rule map_of_SomeD)
  with lh have "\<lparr>DuplicateType = ''Same Artist+Title'', GroupKey = ?K, members = ?h\<rparr>
                \<in> set (reported ''Same Artist+Title'' (by_title tracks))"
    by (force simp: reported_def)
  then have "\<lparr>DuplicateType = ''Same Artist+Title'', GroupKey = ?K, members = ?h\<rparr> \<in> set gs"
    by (simp add: gs)
  with th show ?thesis by force
qed

theorem signature_refines_identity_witness:
  "dup_groups [ex_mix_a, ex_mix_b]
     = Inr [\<lparr>DuplicateType = ''Same Artist+Title'', GroupKey = ''daft punk|around the world'',
             members = [ex_mix_a, ex_mix_b]\<rparr>,
            \<lparr>DuplicateType = ''Signature Match'',
             GroupKey = ''daft punk|around the world|429|121'',
             members = [ex_mix_a, ex_mix_b]\<rparr>]
   \<and> strip_char CHR ''|'' (title_key ex_mix_a) \<noteq> []
   \<and> (\<exists>h \<in> set [\<lparr>DuplicateType = ''Same Artist+Title'',
                      GroupKey = ''daft punk|around the world'',
                      members = [ex_mix_a, ex_mix_b]\<rparr>,
                    \<lparr>DuplicateType = ''Signature Match'',
                      GroupKey = ''daft punk|around the world|429|121'',
                      members = [ex_mix_a, ex_mix_b]\<rparr>].
          DuplicateType h = ''Same Artist+Title''
          \<and> ex_mix_a \<in> set (members h) \<and> ex_mix_b \<in> set (members h))"
proof -
  let ?sg = "\<lparr>DuplicateType = ''Signature Match'',
             GroupKey = ''daft punk|around the world|429|121'',
             members = [ex_mix_a, ex_mix_b]\<rparr>"
  let ?gs = "[\<lparr>DuplicateType = ''Same Artist+Title'', GroupKey = ''daft punk|around the world'',
             members = [ex_mix_a, ex_mix_b]\<rparr>, ?sg]"
  have ok: "dup_groups [ex_mix_a, ex_mix_b] = Inr ?gs" by code_simp
  have ne: "strip_char CHR ''|'' (title_key ex_mix_a) \<noteq> []" by code_simp
  have g: "?sg \<in> set ?gs" "DuplicateType ?sg = ''Signature Match''" by simp_all
  have mem: "ex_mix_a \<in> set (members ?sg)" "ex_mix_b \<in> set (members ?sg)" by simp_all
  from signature_refines_identity [OF ok g mem ne] ok ne show ?thesis by blast
qed

text \<open>
  C3. Every pair of tracks in a reported signature group should also be together in a
  reported identity-key group. The location loop and the identity-key loop skip an empty
  key; the signature loop does not. So two tracks without artist and title, of the same
  duration and rounded tempo, are reported as a \<open>Signature Match\<close> under the key
  \<open>||215|128\<close> while no \<open>Same Artist+Title\<close> group exists: the report of the code on
  this library is the one group below.
\<close>

theorem untagged_signature_without_identity:
  "dup_groups [ex_untagged_a, ex_untagged_b]
     = Inr [\<lparr>DuplicateType = ''Signature Match'', GroupKey = ''||215|128'',
             members = [ex_untagged_a, ex_untagged_b]\<rparr>]"
  by code_simp

end
